theory Spec2Isabelle
  imports Main "HOL-Library.Sublist" "HOL-Library.AList"
begin

text \<open>
  A model of the collection and dispatch pipeline of the repository:
  parseRepository and the two collection passes of emailCollector.js, the
  filters of emailFilter.js, the request method of the GitHub client, and the
  template rendering and batch dispatch of emailSender.js. A JavaScript function
  is a HOL function of the same name. What the code awaits (the GitHub client of
  the collector, axios, the nodemailer transporter) is a parameter of the model
  that gives the answer to each call; a thrown error is a value; a loop is a
  recursive function with a proof that it terminates; timers and the clock are in
  the state where the code reads them.
\<close>

section \<open>JavaScript strings\<close>

text \<open>
  Strings are lists of characters. The helpers below follow the methods of
  JavaScript's \<open>String\<close> that the sources call: \<open>startsWith\<close>, \<open>includes\<close>,
  \<open>split('/')\<close>, \<open>toLowerCase\<close> and \<open>trim\<close> (on ASCII text).
\<close>

fun startsWith :: "string \<Rightarrow> string \<Rightarrow> bool" where
  "startsWith s [] = True"
| "startsWith [] (p # ps) = False"
| "startsWith (c # cs) (p # ps) = (c = p \<and> startsWith cs ps)"

fun js_includes :: "string \<Rightarrow> string \<Rightarrow> bool" where
  "js_includes [] sub = (sub = [])"
| "js_includes (c # cs) sub = (startsWith (c # cs) sub \<or> js_includes cs sub)"

fun endsWith :: "string \<Rightarrow> string \<Rightarrow> bool" where
  "endsWith s suf = startsWith (rev s) (rev suf)"

fun split_slash :: "string \<Rightarrow> string list" where
  "split_slash [] = [[]]"
| "split_slash (c # cs) =
     (if c = CHR ''/'' then [] # split_slash cs
      else (case split_slash cs of
              [] \<Rightarrow> [[c]]
            | p # ps \<Rightarrow> (c # p) # ps))"

fun nth_opt :: "'a list \<Rightarrow> nat \<Rightarrow> 'a option" where
  "nth_opt [] n = None"
| "nth_opt (x # xs) 0 = Some x"
| "nth_opt (x # xs) (Suc n) = nth_opt xs n"

section \<open>EmailCollector.parseRepository\<close>

datatype collector_error = InvalidRepositoryFormat

definition not_slash :: "char \<Rightarrow> bool" where
  "not_slash c = (c \<noteq> CHR ''/'')"

text \<open>
  \<open>match_here s\<close> is a match of the regular expression
  \<open>github\.com\/([^\/]+)\/([^\/]+)\<close> anchored at the start of \<open>s\<close>; both groups are
  greedy and hold no slash, so each takes the longest slash-free run.
\<close>

definition match_here :: "string \<Rightarrow> (string \<times> string) option" where
  "match_here s =
     (if startsWith s ''github.com/'' then
        (let r = drop 11 s;
             g1 = takeWhile not_slash r;
             r1 = dropWhile not_slash r
         in if g1 = [] then None
            else (case r1 of
                    [] \<Rightarrow> None
                  | _ # r2 \<Rightarrow>
                      (let g2 = takeWhile not_slash r2
                       in if g2 = [] then None else Some (g1, g2))))
      else None)"

text \<open>\<open>repoInput.match(...)\<close>: the leftmost position at which the expression matches.\<close>

fun github_match :: "string \<Rightarrow> (string \<times> string) option" where
  "github_match [] = match_here []"
| "github_match (c # cs) =
     (case match_here (c # cs) of
        Some m \<Rightarrow> Some m
      | None \<Rightarrow> github_match cs)"

text \<open>\<open>.replace(/\.git$/, '')\<close> and \<open>.replace(/\/$/, '')\<close>.\<close>

definition strip_suffix :: "string \<Rightarrow> string \<Rightarrow> string" where
  "strip_suffix suf s =
     (if endsWith s suf then take (length s - length suf) s else s)"

record repo_ref =
  owner :: "string option"
  repo :: "string option"

definition parseRepository :: "string \<Rightarrow> collector_error + repo_ref" where
  "parseRepository repoInput =
     (if js_includes repoInput ''/'' then
        (if startsWith repoInput ''http'' then
           (case github_match repoInput of
              Some (g1, g2) \<Rightarrow>
                Inr \<lparr>owner = Some g1,
                     repo = Some (strip_suffix ''/'' (strip_suffix ''.git'' g2))\<rparr>
            | None \<Rightarrow> Inr \<lparr>owner = None, repo = None\<rparr>)
         else
           (let parts = split_slash repoInput
            in Inr \<lparr>owner = nth_opt parts 0, repo = nth_opt parts 1\<rparr>))
      else Inl InvalidRepositoryFormat)"

section \<open>EmailSender\<close>

subsection \<open>renderTemplate\<close>

text \<open>
  \<open>rendered.replace(regex, value)\<close> with a string as second argument expands the
  dollar patterns of the replacement text at every match: \<open>$$\<close> is a dollar sign,
  \<open>$&\<close> the matched text, a dollar sign with a backquote the text before the match
  and a dollar sign with a quote the text after it. The expression has no capture
  group, so a dollar sign in front of a digit or of \<open><\<close> stays as it is written.
\<close>

fun GetSubstitution :: "string \<Rightarrow> string \<Rightarrow> string \<Rightarrow> string \<Rightarrow> string" where
  "GetSubstitution matched pre post [] = []"
| "GetSubstitution matched pre post [c] = [c]"
| "GetSubstitution matched pre post (c # d # ds) =
     (if c = CHR ''$'' then
        (if d = CHR ''$'' then CHR ''$'' # GetSubstitution matched pre post ds
         else if d = CHR ''&'' then matched @ GetSubstitution matched pre post ds
         else if d = CHR 0x60 then pre @ GetSubstitution matched pre post ds
         else if d = CHR 0x27 then post @ GetSubstitution matched pre post ds
         else c # GetSubstitution matched pre post (d # ds))
      else c # GetSubstitution matched pre post (d # ds))"

text \<open>
  The expression built for a key is \<open>{{key}}\<close> with the global flag. For a key made
  of letters, as the four keys of sendBulkEmails are, it matches that text and
  nothing else.
\<close>

definition placeholder :: "string \<Rightarrow> string" where
  "placeholder key = ''{{'' @ key @ ''}}''"

text \<open>
  The global replacement scans from left to right; \<open>pre\<close> is the part of the
  subject string already passed, and the inserted text is not scanned again.
\<close>

function replace_from :: "string \<Rightarrow> string \<Rightarrow> string \<Rightarrow> string \<Rightarrow> string" where
  "replace_from key rep pre [] = []"
| "replace_from key rep pre (c # cs) =
     (if startsWith (c # cs) (placeholder key) then
        GetSubstitution (placeholder key) pre
            (drop (length (placeholder key)) (c # cs)) rep
          @ replace_from key rep (pre @ placeholder key)
              (drop (length (placeholder key)) (c # cs))
      else c # replace_from key rep (pre @ [c]) cs)"
  by pat_completeness auto
termination
  by (relation "measure (\<lambda>(key, rep, pre, s). length s)")
     (auto simp: placeholder_def)

definition or_empty :: "string option \<Rightarrow> string" where
  "or_empty v = (case v of None \<Rightarrow> [] | Some s \<Rightarrow> s)"

text \<open>
  The variables are the object's own keys in insertion order, each with its value
  (\<open>None\<close> for undefined or null); \<open>variables[key] || ''\<close> is \<open>or_empty\<close>.
\<close>

fun renderTemplate :: "string \<Rightarrow> (string \<times> string option) list \<Rightarrow> string" where
  "renderTemplate rendered [] = rendered"
| "renderTemplate rendered ((key, v) # variables) =
     renderTemplate (replace_from key (or_empty v) [] rendered) variables"

subsection \<open>sendEmail\<close>

record mail_options =
  to :: string
  subject :: string
  html :: string
  text_part :: "string option"

datatype send_reply =
    Accepted string string
  | SendFailed "string option" string

datatype verify_reply = Verified | VerifyFailed string

text \<open>
  The nodemailer transporter is the environment: \<open>verify\<close> is its answer to the
  connection check, \<open>sendMail k m\<close> its answer to the message \<open>m\<close> sent for the
  \<open>k\<close>-th address of the list (an accepted message with its id and response, or a
  thrown error with its code and message).
\<close>

record transporter =
  verify :: verify_reply
  sendMail :: "nat \<Rightarrow> mail_options \<Rightarrow> send_reply"

record email_item_obj =
  item_email :: "string option"
  item_name :: "string option"
  item_username :: "string option"
  item_repository :: "string option"

datatype email_item = ItemStr string | ItemObj email_item_obj

datatype address = AddrStr string | AddrObj email_item_obj

record outcome =
  email :: address
  success :: bool
  messageId :: "string option"
  response :: "string option"
  error :: "string option"
  errorCode :: "string option"

definition truthy :: "string option \<Rightarrow> bool" where
  "truthy v = (case v of None \<Rightarrow> False | Some s \<Rightarrow> s \<noteq> [])"

definition send_error_message :: "string option \<Rightarrow> string \<Rightarrow> string" where
  "send_error_message code msg =
     (if code = Some ''EAUTH'' then ''Authentication failed. Check your SMTP credentials.''
      else if code = Some ''ECONNECTION'' then
        ''Connection failed. Check your SMTP settings and network connection.''
      else if code = Some ''ETIMEDOUT'' then
        ''Connection timeout. Check your network connection and firewall settings.''
      else if code = Some ''ECONNREFUSED'' then
        ''Connection refused. Check if SMTP host and port are correct.''
      else if code = Some ''ENOTFOUND'' then
        ''SMTP host not found. Please verify the hostname is correct.''
      else msg)"

definition sendEmail ::
  "transporter \<Rightarrow> nat \<Rightarrow> address \<Rightarrow> string \<Rightarrow> string \<Rightarrow> string \<Rightarrow> string option \<Rightarrow> outcome" where
  "sendEmail tr k addr rcpt subj body txt =
     (case sendMail tr k
             \<lparr>to = rcpt, subject = subj, html = body,
              text_part = (if truthy txt then txt else None)\<rparr> of
        Accepted mid resp \<Rightarrow>
          \<lparr>email = addr, success = True, messageId = Some mid, response = Some resp,
           error = None, errorCode = None\<rparr>
      | SendFailed code msg \<Rightarrow>
          \<lparr>email = addr, success = False, messageId = None, response = None,
           error = Some (send_error_message code msg), errorCode = code\<rparr>)"

subsection \<open>sendBulkEmails\<close>

text \<open>
  \<open>options.batchSize || 5\<close> and \<open>options.delay || 1000\<close>: an option that is absent
  or zero takes the default. Sizes and delays are natural numbers.
\<close>

record bulk_options =
  batchSize :: "nat option"
  delay :: "nat option"

definition batchSize_of :: "bulk_options \<Rightarrow> nat" where
  "batchSize_of options =
     (case batchSize options of None \<Rightarrow> 5 | Some n \<Rightarrow> if n = 0 then 5 else n)"

definition delay_of :: "bulk_options \<Rightarrow> nat" where
  "delay_of options =
     (case delay options of None \<Rightarrow> 1000 | Some d \<Rightarrow> if d = 0 then 1000 else d)"

text \<open>\<open>emailItem.email || emailItem\<close>: an item is an address string or an object.\<close>

definition emailAddress_of :: "email_item \<Rightarrow> address" where
  "emailAddress_of emailItem =
     (case emailItem of
        ItemStr s \<Rightarrow> AddrStr s
      | ItemObj obj \<Rightarrow>
          (if truthy (item_email obj) then AddrStr (or_empty (item_email obj))
           else AddrObj obj))"

definition item_field :: "(email_item_obj \<Rightarrow> string option) \<Rightarrow> email_item \<Rightarrow> string option" where
  "item_field f emailItem = (case emailItem of ItemStr s \<Rightarrow> None | ItemObj obj \<Rightarrow> f obj)"

definition variables_of :: "string \<Rightarrow> email_item \<Rightarrow> (string \<times> string option) list" where
  "variables_of emailAddress emailItem =
     [(''email'', Some emailAddress),
      (''name'',
         if truthy (item_field item_name emailItem) then item_field item_name emailItem
         else if truthy (item_field item_username emailItem)
           then item_field item_username emailItem
         else Some ''Contributor''),
      (''username'',
         if truthy (item_field item_username emailItem)
           then item_field item_username emailItem else Some []),
      (''repository'',
         if truthy (item_field item_repository emailItem)
           then item_field item_repository emailItem else Some [])]"

text \<open>The callback of \<open>batch.map\<close>, for the item at position \<open>k\<close> of the list.\<close>

definition send_item ::
  "transporter \<Rightarrow> string \<Rightarrow> string \<Rightarrow> string option \<Rightarrow> nat \<times> email_item \<Rightarrow> outcome" where
  "send_item tr subj htmlTemplate textTemplate ki =
     (case emailAddress_of (snd ki) of
        AddrObj obj \<Rightarrow>
          \<lparr>email = AddrObj obj, success = False, messageId = None, response = None,
           error = Some ''Invalid email address'', errorCode = None\<rparr>
      | AddrStr a \<Rightarrow>
          (if a = [] then
             \<lparr>email = AddrStr ''unknown'', success = False, messageId = None,
              response = None, error = Some ''Invalid email address'', errorCode = None\<rparr>
           else
             sendEmail tr (fst ki) (AddrStr a) a subj
               (renderTemplate htmlTemplate (variables_of a (snd ki)))
               (if truthy textTemplate
                then Some (renderTemplate (or_empty textTemplate) (variables_of a (snd ki)))
                else None)))"

datatype dispatch_event = Batch "email_item list" | Sleep nat

record bulk_results =
  sent :: "outcome list"
  failed :: "outcome list"
  total :: nat

record dispatch_state =
  results :: bulk_results
  events :: "dispatch_event list"

definition push_result :: "bulk_results \<Rightarrow> outcome \<Rightarrow> bulk_results" where
  "push_result r result =
     (if success result then r\<lparr>sent := sent r @ [result]\<rparr>
      else r\<lparr>failed := failed r @ [result]\<rparr>)"

text \<open>
  The loop \<open>for (let i = 0; i < emails.length; i += batchSize)\<close>. The events record
  each slice handed to \<open>Promise.all\<close> and each delay between batches.
\<close>

function send_batches ::
  "transporter \<Rightarrow> string \<Rightarrow> string \<Rightarrow> string option \<Rightarrow> bulk_options \<Rightarrow>
   email_item list \<Rightarrow> nat \<Rightarrow> dispatch_state \<Rightarrow> dispatch_state" where
  "send_batches tr subj htmlTemplate textTemplate options emails i st =
     (if i < length emails then
        (let batch = take (batchSize_of options) (drop i emails);
             batchResults = map (send_item tr subj htmlTemplate textTemplate)
                              (enumerate i batch);
             st1 = st\<lparr>results := foldl push_result (results st) batchResults,
                      events := events st @ [Batch batch]\<rparr>;
             st2 = (if i + batchSize_of options < length emails
                    then st1\<lparr>events := events st1 @ [Sleep (delay_of options)]\<rparr>
                    else st1)
         in send_batches tr subj htmlTemplate textTemplate options emails
              (i + batchSize_of options) st2)
      else st)"
  by pat_completeness auto
termination
  by (relation "measure (\<lambda>(tr, subj, h, t, options, emails, i, st). length emails - i)")
     (auto simp: batchSize_of_def split: option.splits)

definition sendBulkEmails ::
  "transporter \<Rightarrow> email_item list \<Rightarrow> string \<Rightarrow> string \<Rightarrow> string option \<Rightarrow> bulk_options \<Rightarrow>
   string + dispatch_state" where
  "sendBulkEmails tr emails subj htmlTemplate textTemplate options =
     (case verify tr of
        VerifyFailed msg \<Rightarrow> Inl (''Failed to verify SMTP connection: '' @ msg)
      | Verified \<Rightarrow>
          Inr (send_batches tr subj htmlTemplate textTemplate options emails 0
                 \<lparr>results = \<lparr>sent = [], failed = [], total = length emails\<rparr>,
                  events = []\<rparr>))"

subsection \<open>Batches and events\<close>

text \<open>
  The partition of a list into batches of a fixed size, as the specification words
  it, and a list with a separator between any two neighbours. They state what the
  loop of sendBulkEmails does; the loop itself is \<open>send_batches\<close>.
\<close>

fun intersperse :: "'a \<Rightarrow> 'a list \<Rightarrow> 'a list" where
  "intersperse s [] = []"
| "intersperse s [x] = [x]"
| "intersperse s (x # y # ys) = x # s # intersperse s (y # ys)"

function fixed_size_batches :: "nat \<Rightarrow> 'a list \<Rightarrow> 'a list list" where
  "fixed_size_batches n xs =
     (if n = 0 \<or> xs = [] then [] else take n xs # fixed_size_batches n (drop n xs))"
  by pat_completeness auto
termination
  by (relation "measure (\<lambda>(n, xs). length xs)") auto

text \<open>The slices and the delays recorded in a list of events.\<close>

fun batches_of :: "dispatch_event list \<Rightarrow> email_item list list" where
  "batches_of [] = []"
| "batches_of (Batch b # es) = b # batches_of es"
| "batches_of (Sleep d # es) = batches_of es"

fun sleeps_of :: "dispatch_event list \<Rightarrow> nat list" where
  "sleeps_of [] = []"
| "sleeps_of (Batch b # es) = sleeps_of es"
| "sleeps_of (Sleep d # es) = d # sleeps_of es"

text \<open>
  A transporter that accepts the message for every even position and loses the
  connection at every odd one, and a list of twelve addresses.
\<close>

definition example_transporter :: transporter where
  "example_transporter =
     \<lparr>verify = Verified,
      sendMail = (\<lambda>k m. if even k then Accepted ''<id@relay>'' ''250 OK''
                         else SendFailed (Some ''ECONNECTION'') ''connection lost'')\<rparr>"

definition example_addresses :: "email_item list" where
  "example_addresses = map (\<lambda>n. ItemStr (replicate (Suc n) CHR ''a'' @ ''@dev.org'')) [0..<12]"

section \<open>GitHubAPI\<close>

subsection \<open>Numbers, headers and responses\<close>

text \<open>
  A response header as the code reads it: absent (or empty, so falsy), present with a
  text that \<open>parseInt\<close> cannot read, or present with a text that \<open>parseInt\<close> reads as
  an integer (the text \<open>'0'\<close> is \<open>Num 0\<close>). A JavaScript number is an integer or NaN
  (\<open>None\<close>); every comparison with NaN is false.
\<close>

datatype header = Absent | Garbage | Num int

definition parseInt :: "header \<Rightarrow> int option" where
  "parseInt h = (case h of Num n \<Rightarrow> Some n | _ \<Rightarrow> None)"

definition js_le :: "int option \<Rightarrow> int \<Rightarrow> bool" where
  "js_le a b = (case a of None \<Rightarrow> False | Some x \<Rightarrow> x \<le> b)"

definition js_lt :: "int option \<Rightarrow> int \<Rightarrow> bool" where
  "js_lt a b = (case a of None \<Rightarrow> False | Some x \<Rightarrow> x < b)"

definition js_gt :: "int option \<Rightarrow> int \<Rightarrow> bool" where
  "js_gt a b = (case a of None \<Rightarrow> False | Some x \<Rightarrow> x > b)"

record headers =
  x_ratelimit_remaining :: header
  x_ratelimit_reset :: header
  link :: "string option"

record 'd response =
  status :: nat
  headers :: headers
  data :: 'd

text \<open>
  The error axios rejects with: its code and message, and the response when the
  server answered with a status outside 200 to 299 (\<open>data\<close> is then the message of
  the body, if it has one).
\<close>

record axios_error =
  code :: "string option"
  message :: "string option"
  response :: "string option response option"

datatype 'd axios_result = Resolved "'d response" | Rejected axios_error

text \<open>
  The network is the environment: \<open>axios url k t\<close> is what the \<open>k\<close>-th call of
  \<open>axios.get\<close>, made at time \<open>t\<close> for \<open>url\<close>, settles with, and the milliseconds it
  takes.
\<close>

type_synonym 'd axios = "string \<Rightarrow> nat \<Rightarrow> int \<Rightarrow> 'd axios_result \<times> nat"

datatype api_event =
    Get string int
  | QuotaWait int
  | Backoff int
  | ResetWait int

text \<open>
  The fields of the client that \<open>request\<close> reads and writes, the clock (\<open>Date.now()\<close>,
  in milliseconds), the number of calls made and the events so far: each call with
  its url and time, and each timer with its delay.
\<close>

record api_state =
  rateLimitRemaining :: "int option"
  rateLimitReset :: "int option"
  now :: int
  calls :: nat
  log :: "api_event list"

definition baseURL :: string where
  "baseURL = ''https://api.github.com''"

text \<open>The constructor, run at time \<open>t\<close>.\<close>

definition new_GitHubAPI :: "int \<Rightarrow> api_state" where
  "new_GitHubAPI t =
     \<lparr>rateLimitRemaining = Some 5000, rateLimitReset = Some (t + 3600000),
      now = t, calls = 0, log = []\<rparr>"

datatype api_error =
    RateLimitExceeded "int option"
  | ApiError nat "string option"
  | NetworkErrorAfterRetries "string option"
  | Rethrown axios_error

subsection \<open>request\<close>

text \<open>\<open>await new Promise(resolve => setTimeout(resolve, d))\<close>: the clock moves on by \<open>d\<close>.\<close>

definition sleep :: "(int \<Rightarrow> api_event) \<Rightarrow> int \<Rightarrow> api_state \<Rightarrow> api_state" where
  "sleep kind d st = st\<lparr>now := now st + d, log := log st @ [kind d]\<rparr>"

text \<open>The check of the rate limit at the head of the try block.\<close>

definition hasValidRateLimitInfo :: "api_state \<Rightarrow> bool" where
  "hasValidRateLimitInfo st = js_gt (rateLimitReset st) (now st + 1000)"

definition before_request :: "api_state \<Rightarrow> api_state" where
  "before_request st =
     (if js_le (rateLimitRemaining st) 10 \<and> hasValidRateLimitInfo st then
        (case rateLimitReset st of
           None \<Rightarrow> st
         | Some reset \<Rightarrow>
             (let waitTime = max 0 (reset - now st)
              in if waitTime > 0 \<and> waitTime < 3600000
                 then (sleep QuotaWait (waitTime + 2000) st)\<lparr>rateLimitRemaining := Some 5000\<rparr>
                 else st))
      else st)"

text \<open>The update of the rate limit from the headers of a response.\<close>

definition update_rate_limit :: "headers \<Rightarrow> api_state \<Rightarrow> api_state" where
  "update_rate_limit h st =
     st\<lparr>rateLimitRemaining :=
           (if x_ratelimit_remaining h \<noteq> Absent then parseInt (x_ratelimit_remaining h)
            else rateLimitRemaining st),
        rateLimitReset :=
           (if x_ratelimit_reset h \<noteq> Absent
            then map_option (\<lambda>n. n * 1000) (parseInt (x_ratelimit_reset h))
            else rateLimitReset st)\<rparr>"

definition message_includes :: "axios_error \<Rightarrow> string \<Rightarrow> bool" where
  "message_includes e s = (case message e of None \<Rightarrow> False | Some m \<Rightarrow> js_includes m s)"

definition isNetworkError :: "axios_error \<Rightarrow> bool" where
  "isNetworkError e =
     (code e = Some ''ECONNRESET'' \<or>
      code e = Some ''ETIMEDOUT'' \<or>
      code e = Some ''ENOTFOUND'' \<or>
      code e = Some ''ECONNREFUSED'' \<or>
      message_includes e ''ECONNRESET'' \<or>
      message_includes e ''ETIMEDOUT'' \<or>
      message_includes e ''socket hang up'' \<or>
      message_includes e ''timeout'')"

text \<open>
  \<open>Math.min(2000 * Math.pow(2, 3 - retries), 10000)\<close>. Every caller in the repository
  passes three retries. With more than three the product is a fraction of 2000, and
  the timer truncates its delay and takes at least one millisecond.
\<close>

definition backoffDelay :: "nat \<Rightarrow> int" where
  "backoffDelay retries =
     (if retries \<le> 3 then min (2000 * 2 ^ (3 - retries)) 10000
      else max 1 (2000 div 2 ^ (retries - 3)))"

text \<open>
  The test of the catch block for a rate limit:
  \<open>status === 403 && (remaining === '0' || parseInt(remaining) <= 0)\<close>; the text \<open>'0'\<close>
  is one of those that \<open>parseInt\<close> reads as a number not above zero.
\<close>

definition isRateLimit :: "string option response \<Rightarrow> bool" where
  "isRateLimit r =
     (status r = 403 \<and> js_le (parseInt (x_ratelimit_remaining (headers r))) 0)"

definition first_some :: "string option \<Rightarrow> string option \<Rightarrow> string option" where
  "first_some a b = (if truthy a then a else b)"

text \<open>The state after the call of \<open>axios.get\<close> that took \<open>elapsed\<close> milliseconds.\<close>

definition after_call :: "string \<Rightarrow> nat \<Rightarrow> api_state \<Rightarrow> api_state" where
  "after_call url elapsed st =
     st\<lparr>now := now st + int elapsed, calls := Suc (calls st),
        log := log st @ [Get url (now st)]\<rparr>"

text \<open>
  \<open>request(endpoint, retries)\<close> returns the response, or the error it throws, with
  the state it leaves. (The caller takes \<open>data\<close> or the whole response.)
\<close>

function request ::
  "'d axios \<Rightarrow> string \<Rightarrow> nat \<Rightarrow> api_state \<Rightarrow> (api_error + 'd response) \<times> api_state" where
  "request axios endpoint retries st =
     (case axios (baseURL @ endpoint) (calls (before_request st)) (now (before_request st)) of
        (Resolved resp, elapsed) \<Rightarrow>
          (Inr resp,
           update_rate_limit (headers resp)
             (after_call (baseURL @ endpoint) elapsed (before_request st)))
      | (Rejected err, elapsed) \<Rightarrow>
          (let st2 = after_call (baseURL @ endpoint) elapsed (before_request st)
           in if isNetworkError err \<and> retries > 0 then
                request axios endpoint (retries - 1) (sleep Backoff (backoffDelay retries) st2)
              else
                (case response err of
                   Some r \<Rightarrow>
                     (if isRateLimit r then
                        (let resetTime =
                               map_option (\<lambda>n. n * 1000) (parseInt (x_ratelimit_reset (headers r)));
                             waitTime = map_option (\<lambda>t. max 0 (t - now st2)) resetTime
                         in if retries > 0 \<and> js_lt waitTime 3600000 then
                              request axios endpoint (retries - 1)
                                ((sleep ResetWait (case waitTime of Some w \<Rightarrow> w + 2000 | None \<Rightarrow> 0) st2)
                                   \<lparr>rateLimitRemaining := Some 5000\<rparr>)
                            else (Inl (RateLimitExceeded resetTime), st2))
                      else (Inl (ApiError (status r) (first_some (data r) (message err))), st2))
                 | None \<Rightarrow>
                     (if isNetworkError err
                      then (Inl (NetworkErrorAfterRetries (first_some (code err) (message err))), st2)
                      else (Inl (Rethrown err), st2)))))"
  by pat_completeness auto
termination
  by (relation "measure (\<lambda>(axios, endpoint, retries, st). retries)") auto

text \<open>The delays and the calls recorded in a list of events.\<close>

fun backoffs_of :: "api_event list \<Rightarrow> int list" where
  "backoffs_of [] = []"
| "backoffs_of (Backoff d # es) = d # backoffs_of es"
| "backoffs_of (e # es) = backoffs_of es"

fun gets_of :: "api_event list \<Rightarrow> (string \<times> int) list" where
  "gets_of [] = []"
| "gets_of (Get url t # es) = (url, t) # gets_of es"
| "gets_of (e # es) = gets_of es"

subsection \<open>Example states, errors and networks\<close>

text \<open>
  A client with a remaining quota of 5 whose reset time is ten seconds ahead, a
  network that rejects every call with one given error after 150 ms, and four
  errors: status 429 and status 403 with no quota left, a connection reset, and
  status 404.
\<close>

definition example_api_state :: api_state where
  "example_api_state =
     \<lparr>rateLimitRemaining = Some 5, rateLimitReset = Some 1700000010000,
      now = 1700000000000, calls = 7, log = []\<rparr>"

definition failing_axios :: "axios_error \<Rightarrow> string axios" where
  "failing_axios e = (\<lambda>url k t. (Rejected e, 150))"

definition too_many_requests :: axios_error where
  "too_many_requests =
     \<lparr>code = Some ''ERR_BAD_REQUEST'',
      message = Some ''Request failed with status code 429'',
      response = Some \<lparr>status = 429,
                        headers = \<lparr>x_ratelimit_remaining = Num 0,
                                   x_ratelimit_reset = Num 1700000060, link = None\<rparr>,
                        data = Some ''API rate limit exceeded''\<rparr>\<rparr>"

definition forbidden_no_quota :: axios_error where
  "forbidden_no_quota =
     \<lparr>code = Some ''ERR_BAD_REQUEST'',
      message = Some ''Request failed with status code 403'',
      response = Some \<lparr>status = 403,
                        headers = \<lparr>x_ratelimit_remaining = Num 0,
                                   x_ratelimit_reset = Num 1700000060, link = None\<rparr>,
                        data = Some ''API rate limit exceeded''\<rparr>\<rparr>"

definition connection_reset :: axios_error where
  "connection_reset =
     \<lparr>code = Some ''ECONNRESET'', message = Some ''read ECONNRESET'', response = None\<rparr>"

definition not_found :: axios_error where
  "not_found =
     \<lparr>code = Some ''ERR_BAD_REQUEST'',
      message = Some ''Request failed with status code 404'',
      response = Some \<lparr>status = 404,
                        headers = \<lparr>x_ratelimit_remaining = Num 4990,
                                   x_ratelimit_reset = Num 1700003600, link = None\<rparr>,
                        data = Some ''Not Found''\<rparr>\<rparr>"

text \<open>A network that fails every call with a transient error, for one url.\<close>

definition always_transient :: "'d axios \<Rightarrow> string \<Rightarrow> bool" where
  "always_transient axios url =
     (\<forall>k t. \<exists>e el. axios url k t = (Rejected e, el) \<and> isNetworkError e \<and> response e = None)"

section \<open>Address filters\<close>

text \<open>
  \<open>toLowerCase\<close> and \<open>trim\<close> on ASCII text: the letters A to Z are lowered, and
  the white space is the space and the characters 9 to 13.
\<close>

definition lower_char :: "char \<Rightarrow> char" where
  "lower_char c =
     (if 65 \<le> (of_char c :: nat) \<and> (of_char c :: nat) \<le> 90
      then char_of ((of_char c :: nat) + 32) else c)"

definition toLowerCase :: "string \<Rightarrow> string" where
  "toLowerCase s = map lower_char s"

definition is_space :: "char \<Rightarrow> bool" where
  "is_space c = ((of_char c :: nat) = 32 \<or> (9 \<le> (of_char c :: nat) \<and> (of_char c :: nat) \<le> 13))"

definition trim :: "string \<Rightarrow> string" where
  "trim s = rev (dropWhile is_space (rev (dropWhile is_space s)))"

definition includes_any :: "string \<Rightarrow> string list \<Rightarrow> bool" where
  "includes_any s patterns = list_ex (js_includes s) patterns"

text \<open>
  The test of \<open>/^[^\s@]+@[^\s@]+\.[^\s@]+$/\<close>: one \<open>@\<close>, no white space, a local part
  that is not empty, and a domain with a dot that is neither its first nor its
  last character.
\<close>

definition plain_char :: "char \<Rightarrow> bool" where
  "plain_char c = (\<not> is_space c \<and> c \<noteq> CHR ''@'')"

definition not_at :: "char \<Rightarrow> bool" where
  "not_at c = (c \<noteq> CHR ''@'')"

definition emailRegex_test :: "string \<Rightarrow> bool" where
  "emailRegex_test s =
     (takeWhile not_at s \<noteq> [] \<and> list_all plain_char (takeWhile not_at s) \<and>
      (case dropWhile not_at s of
         [] \<Rightarrow> False
       | _ # domain \<Rightarrow>
           list_all plain_char domain \<and> List.member (butlast (tl domain)) CHR ''.''))"

text \<open>\<open>filterInvalidEmails\<close> of emailFilter.js; each pattern is an alternation of plain texts.\<close>

definition filterInvalidEmails :: "string \<Rightarrow> bool" where
  "filterInvalidEmails address =
     (if address = [] then False
      else if \<not> emailRegex_test address then False
      else
        (let lowerEmail = trim (toLowerCase address) in
         if includes_any lowerEmail [''noreply@'', ''users.noreply.github.com''] then False
         else if includes_any lowerEmail
                   [''example.com'', ''test.com'', ''sample.com'', ''demo.com''] then False
         else if includes_any lowerEmail
                   [''admin@'', ''info@'', ''contact@'', ''hello@'', ''noreply@'', ''no-reply@'',
                    ''donotreply@''] then False
         else if includes_any lowerEmail
                   [''test@'', ''testing@'', ''dev@'', ''development@'', ''staging@'', ''qa@'']
           then False
         else if includes_any lowerEmail [''temp@'', ''temporary@'', ''tmp@'', ''temp-'', ''tmp-'']
           then False
         else if includes_any lowerEmail
                   [''github.com'', ''github.local'', ''ghp_'', ''users.noreply''] then False
         else if includes_any lowerEmail [''localhost'', ''invalid'', ''fake'', ''placeholder'']
           then False
         else if List.member
                   [''example'', ''test'', ''sample'', ''demo'', ''admin'', ''postmaster'',
                    ''noreply'', ''no-reply'']
                   (takeWhile not_at lowerEmail) then False
         else True))"

text \<open>\<open>isValidEmail\<close> of the collector.\<close>

definition isValidEmail :: "string \<Rightarrow> bool" where
  "isValidEmail address =
     (if address = [] then False
      else \<not> includes_any (toLowerCase address)
               [''noreply'', ''no-reply'', ''example'', ''test'', ''github.com''])"

section \<open>EmailCollector\<close>

subsection \<open>Data\<close>

text \<open>
  A contributor entry or a user profile, as the API returns it: the fields
  \<open>login\<close>, \<open>email\<close> and \<open>name\<close>, each of which may be missing or null.
\<close>

record github_user =
  login :: "string option"
  user_email :: "string option"
  user_name :: "string option"

text \<open>A commit: \<open>commit.commit.author\<close> with its email and name, and \<open>commit.author.login\<close>.\<close>

record git_author =
  author_email :: "string option"
  author_name :: "string option"

record commit_entry =
  commit_author :: "git_author option"
  author_login :: "string option"

text \<open>The record of a collected address; \<open>repository\<close> is set after the others.\<close>

record email_data =
  email :: string
  name :: string
  username :: string
  repository :: "string option"

text \<open>
  The client is the collector's environment. A call returns a value or throws an
  error with a message and perhaps a code. The \<open>k\<close>-th call for a page of
  contributors, or of commits, may answer in its own way, so that a page can fail
  first and succeed when it is asked for again.
\<close>

datatype 'a reply = Returns 'a | Throws string "string option"

record contributors_page =
  contributors :: "github_user list"
  hasNextPage :: bool

record github_api =
  getContributorsWithPagination :: "nat \<Rightarrow> nat \<Rightarrow> contributors_page reply"
  getUser :: "string \<Rightarrow> github_user reply"
  getCommits :: "nat \<Rightarrow> nat \<Rightarrow> commit_entry list reply"

subsection \<open>extractEmailFromUser and the contributors of a page\<close>

definition or_else :: "string option \<Rightarrow> string \<Rightarrow> string" where
  "or_else v d = (if truthy v then or_empty v else d)"

definition extractEmailFromUser :: "github_user \<Rightarrow> email_data option" where
  "extractEmailFromUser user =
     (if \<not> truthy (user_email user) then None
      else if filterInvalidEmails (or_empty (user_email user)) then
        Some \<lparr>email = trim (toLowerCase (or_empty (user_email user))),
              name = or_else (user_name user) (or_else (login user) []),
              username = or_else (login user) [],
              repository = None\<rparr>
      else None)"

text \<open>The callback of \<open>batch.map\<close> in collectFromContributors; it catches every error.\<close>

definition process_contributor :: "github_api \<Rightarrow> string \<Rightarrow> github_user \<Rightarrow> email_data option" where
  "process_contributor api repositoryName contributor =
     (if \<not> truthy (login contributor) then
        (if truthy (user_email contributor) then
           (let emailData =
                  \<lparr>email = trim (toLowerCase (or_empty (user_email contributor))),
                   name = or_else (user_name contributor) ''Anonymous Contributor'',
                   username = [],
                   repository = Some repositoryName\<rparr>
            in if filterInvalidEmails (email emailData) then Some emailData else None)
         else None)
      else
        (case getUser api (or_empty (login contributor)) of
           Throws msg c \<Rightarrow> None
         | Returns user \<Rightarrow>
             (case extractEmailFromUser user of
                Some emailData \<Rightarrow> Some (emailData\<lparr>repository := Some repositoryName\<rparr>)
              | None \<Rightarrow> None)))"

text \<open>The loop over the batches of five contributors of a page.\<close>

function process_page ::
  "github_api \<Rightarrow> string \<Rightarrow> github_user list \<Rightarrow> nat \<Rightarrow> email_data list \<Rightarrow> email_data list" where
  "process_page api repositoryName cs i emails =
     (if i < length cs then
        process_page api repositoryName cs (i + 5)
          (emails @ List.map_filter (process_contributor api repositoryName) (take 5 (drop i cs)))
      else emails)"
  by pat_completeness auto
termination
  by (relation "measure (\<lambda>(api, rn, cs, i, emails). length cs - i)") auto

subsection \<open>collectFromContributors\<close>

definition maxPages :: nat where
  "maxPages = 1000"

definition maxConsecutiveErrors :: nat where
  "maxConsecutiveErrors = 3"

definition maxConsecutiveEmptyPages :: nat where
  "maxConsecutiveEmptyPages = 3"

text \<open>
  The variables of the pass, the pages asked for so far, in order, and the error
  the pass has thrown, if it has.
\<close>

record contributors_run =
  emails :: "email_data list"
  page :: nat
  hasMore :: bool
  totalContributorsFetched :: nat
  consecutiveErrors :: nat
  consecutiveEmptyPages :: nat
  fetched :: "nat list"
  thrown :: "string option"

definition contributors_start :: contributors_run where
  "contributors_start =
     \<lparr>emails = [], page = 1, hasMore = True, totalContributorsFetched = 0,
      consecutiveErrors = 0, consecutiveEmptyPages = 0, fetched = [], thrown = None\<rparr>"

text \<open>The try block after the check of the page limit, for a page that was returned.\<close>

definition count_page :: "contributors_page \<Rightarrow> contributors_run \<Rightarrow> contributors_run" where
  "count_page pg st =
     (if length (contributors pg) = 0
      then st\<lparr>consecutiveEmptyPages := consecutiveEmptyPages st + 1\<rparr>
      else st\<lparr>consecutiveEmptyPages := 0,
              totalContributorsFetched := totalContributorsFetched st + length (contributors pg)\<rparr>)"

definition next_page :: "contributors_page \<Rightarrow> contributors_run \<Rightarrow> contributors_run" where
  "next_page pg st =
     (if consecutiveEmptyPages st \<ge> maxConsecutiveEmptyPages then st\<lparr>hasMore := False\<rparr>
      else if hasNextPage pg then st\<lparr>page := page st + 1\<rparr>
      else if length (contributors pg) = 0 then st\<lparr>page := page st + 1\<rparr>
      else if length (contributors pg) < 100 then st\<lparr>page := page st + 1\<rparr>
      else st\<lparr>page := page st + 1\<rparr>)"

definition after_page ::
  "github_api \<Rightarrow> string \<Rightarrow> contributors_page \<Rightarrow> contributors_run \<Rightarrow> contributors_run" where
  "after_page api repositoryName pg st =
     next_page pg
       ((count_page pg st)
          \<lparr>emails := process_page api repositoryName (contributors pg) 0 (emails st),
           consecutiveErrors := 0\<rparr>)"

text \<open>The catch block, for an error that is not a rate-limit error.\<close>

definition after_error :: "contributors_run \<Rightarrow> contributors_run" where
  "after_error st =
     (if consecutiveErrors st \<ge> maxConsecutiveErrors then st\<lparr>hasMore := False\<rparr> else st)"

text \<open>The loop \<open>while (hasMore && page <= maxPages)\<close>.\<close>

function contributors_loop :: "github_api \<Rightarrow> string \<Rightarrow> contributors_run \<Rightarrow> contributors_run" where
  "contributors_loop api repositoryName st =
     (if hasMore st \<and> page st \<le> maxPages then
        (case getContributorsWithPagination api (length (fetched st)) (page st) of
           Returns pg \<Rightarrow>
             (if page st \<ge> maxPages
              then st\<lparr>fetched := fetched st @ [page st], hasMore := False\<rparr>
              else contributors_loop api repositoryName
                     (after_page api repositoryName pg (st\<lparr>fetched := fetched st @ [page st]\<rparr>)))
         | Throws msg c \<Rightarrow>
             (if js_includes msg ''rate limit''
              then st\<lparr>fetched := fetched st @ [page st],
                      consecutiveErrors := consecutiveErrors st + 1, thrown := Some msg\<rparr>
              else contributors_loop api repositoryName
                     (after_error (st\<lparr>fetched := fetched st @ [page st],
                                      consecutiveErrors := consecutiveErrors st + 1\<rparr>))))
      else st)"
  by pat_completeness auto
termination
  by (relation "measures [\<lambda>(api, rn, st). if hasMore st then 1 else 0,
                          \<lambda>(api, rn, st). maxPages + 1 - page st,
                          \<lambda>(api, rn, st). maxConsecutiveErrors - consecutiveErrors st]")
     (auto simp: after_page_def next_page_def count_page_def after_error_def
        maxConsecutiveErrors_def)

text \<open>
  collectFromContributors runs the loop from its first state. The code returns
  the \<open>emails\<close> of the last state, or throws the error that is \<open>thrown\<close> there.
\<close>

definition collectFromContributors :: "github_api \<Rightarrow> string \<Rightarrow> contributors_run" where
  "collectFromContributors api repositoryName =
     contributors_loop api repositoryName contributors_start"

subsection \<open>collectFromCommits\<close>

record commits_run =
  c_emails :: "email_data list"
  c_page :: nat
  c_hasMore :: bool
  totalCommits :: nat
  c_consecutiveErrors :: nat
  c_fetched :: "nat list"
  c_thrown :: "string option"

definition commits_start :: commits_run where
  "commits_start =
     \<lparr>c_emails = [], c_page = 1, c_hasMore = True, totalCommits = 0,
      c_consecutiveErrors = 0, c_fetched = [], c_thrown = None\<rparr>"

definition commit_email :: "string \<Rightarrow> commit_entry \<Rightarrow> email_data option" where
  "commit_email repositoryName c =
     (case commit_author c of
        None \<Rightarrow> None
      | Some author \<Rightarrow>
          (if truthy (author_email author) then
             (let emailData =
                    \<lparr>email = trim (toLowerCase (or_empty (author_email author))),
                     name = or_else (author_name author) (or_else (author_login c) []),
                     username = or_else (author_login c) [],
                     repository = None\<rparr>
              in if isValidEmail (email emailData)
                 then Some (emailData\<lparr>repository := Some repositoryName\<rparr>) else None)
           else None))"

text \<open>The loop \<open>for (const commit of commits)\<close>, with its break at the cap.\<close>

fun process_commits ::
  "string \<Rightarrow> nat \<Rightarrow> commit_entry list \<Rightarrow> commits_run \<Rightarrow> commits_run" where
  "process_commits repositoryName maxCommits [] st = st"
| "process_commits repositoryName maxCommits (c # cs) st =
     (if totalCommits st \<ge> maxCommits then st
      else process_commits repositoryName maxCommits cs
             (st\<lparr>c_emails := c_emails st @
                     (case commit_email repositoryName c of Some d \<Rightarrow> [d] | None \<Rightarrow> []),
                 totalCommits := totalCommits st + 1\<rparr>))"

definition isTransientError :: "string \<Rightarrow> string option \<Rightarrow> bool" where
  "isTransientError errMsg errCode =
     (js_includes errMsg ''ECONNRESET'' \<or>
      js_includes errMsg ''ETIMEDOUT'' \<or>
      js_includes errMsg ''ENOTFOUND'' \<or>
      js_includes errMsg ''ECONNREFUSED'' \<or>
      js_includes errMsg ''socket hang up'' \<or>
      (truthy errCode \<and>
       List.member [''ECONNRESET'', ''ETIMEDOUT'', ''ENOTFOUND'', ''ECONNREFUSED'']
         (or_empty errCode)))"

definition commits_after_error :: "string \<Rightarrow> string option \<Rightarrow> commits_run \<Rightarrow> commits_run" where
  "commits_after_error errMsg errCode st =
     (if c_consecutiveErrors st \<ge> maxConsecutiveErrors then st\<lparr>c_hasMore := False\<rparr>
      else if isTransientError errMsg errCode then st
      else if c_consecutiveErrors st < maxConsecutiveErrors then st\<lparr>c_page := c_page st + 1\<rparr>
      else st\<lparr>c_hasMore := False\<rparr>)"

definition commits_after_page :: "string \<Rightarrow> nat \<Rightarrow> commit_entry list \<Rightarrow> commits_run \<Rightarrow> commits_run" where
  "commits_after_page repositoryName maxCommits commits st =
     (let st1 = (process_commits repositoryName maxCommits commits st)\<lparr>c_consecutiveErrors := 0\<rparr>
      in if length commits < 100 then st1\<lparr>c_hasMore := False\<rparr>
         else st1\<lparr>c_page := c_page st1 + 1\<rparr>)"

text \<open>The loop \<open>while (hasMore && totalCommits < maxCommits)\<close>.\<close>

function commits_loop :: "github_api \<Rightarrow> string \<Rightarrow> nat \<Rightarrow> commits_run \<Rightarrow> commits_run" where
  "commits_loop api repositoryName maxCommits st =
     (if c_hasMore st \<and> totalCommits st < maxCommits then
        (case getCommits api (length (c_fetched st)) (c_page st) of
           Returns commits \<Rightarrow>
             (if commits = []
              then st\<lparr>c_fetched := c_fetched st @ [c_page st], c_hasMore := False\<rparr>
              else commits_loop api repositoryName maxCommits
                     (commits_after_page repositoryName maxCommits commits
                        (st\<lparr>c_fetched := c_fetched st @ [c_page st]\<rparr>)))
         | Throws msg c \<Rightarrow>
             (if js_includes msg ''rate limit''
              then st\<lparr>c_fetched := c_fetched st @ [c_page st],
                      c_consecutiveErrors := c_consecutiveErrors st + 1, c_thrown := Some msg\<rparr>
              else commits_loop api repositoryName maxCommits
                     (commits_after_error msg c
                        (st\<lparr>c_fetched := c_fetched st @ [c_page st],
                            c_consecutiveErrors := c_consecutiveErrors st + 1\<rparr>))))
      else st)"
  by pat_completeness auto
termination
proof -
  have total: "totalCommits (process_commits rn m cs st) =
      (if totalCommits st \<ge> m then totalCommits st else min m (totalCommits st + length cs))"
    for rn m cs st
    by (induction cs arbitrary: st) auto
  show ?thesis
    by (relation "measures [\<lambda>(api, rn, m, st). if c_hasMore st then 1 else 0,
                            \<lambda>(api, rn, m, st). m - totalCommits st,
                            \<lambda>(api, rn, m, st). maxConsecutiveErrors - c_consecutiveErrors st]")
       (auto simp: commits_after_page_def commits_after_error_def Let_def
          total maxConsecutiveErrors_def neq_Nil_conv)
qed

definition collectFromCommits :: "github_api \<Rightarrow> string \<Rightarrow> nat \<Rightarrow> commits_run" where
  "collectFromCommits api repositoryName maxCommits =
     commits_loop api repositoryName maxCommits commits_start"

subsection \<open>collectFromRepository\<close>

text \<open>
  \<open>emailMap\<close> is a Map: its entries keep the order of their first insertion, and
  \<open>set\<close> on a key it has replaces the value in place (\<open>AList.update\<close>).
\<close>

definition set_all :: "(string \<times> email_data) list \<Rightarrow> email_data list \<Rightarrow> (string \<times> email_data) list" where
  "set_all emailMap es = foldl (\<lambda>m e. AList.update (email e) e m) emailMap es"

definition set_new :: "(string \<times> email_data) list \<Rightarrow> email_data list \<Rightarrow> (string \<times> email_data) list" where
  "set_new emailMap es =
     foldl (\<lambda>m e. if map_of m (email e) \<noteq> None then m else AList.update (email e) e m)
       emailMap es"

record collect_options =
  includeContributors :: "bool option"
  includeCommits :: "bool option"
  maxCommits :: "nat option"

text \<open>
  What a run has gathered when it hands its valid addresses to saveEmails: the
  addresses each pass returned (none if the pass was left out or threw), the
  values of the map, those that pass the filter, the messages of the error events,
  and the pages each pass asked for.
\<close>

record collection =
  repositoryName :: string
  contributorEmails :: "email_data list"
  commitEmails :: "email_data list"
  allEmails :: "email_data list"
  validEmails :: "email_data list"
  errorEvents :: "string list"
  contributorPages :: "nat list"
  commitPages :: "nat list"

definition shown :: "string option \<Rightarrow> string" where
  "shown v = (case v of None \<Rightarrow> ''undefined'' | Some s \<Rightarrow> s)"

text \<open>\<open>`${owner}/${repo}`\<close> and \<open>options.maxCommits || 1000\<close>.\<close>

definition repositoryName_of :: "repo_ref \<Rightarrow> string" where
  "repositoryName_of r = shown (owner r) @ ''/'' @ shown (repo r)"

definition maxCommits_of :: "collect_options \<Rightarrow> nat" where
  "maxCommits_of options =
     (case maxCommits options of None \<Rightarrow> 1000 | Some n \<Rightarrow> if n = 0 then 1000 else n)"

definition collectFromRepository ::
  "github_api \<Rightarrow> string \<Rightarrow> collect_options \<Rightarrow> collector_error + collection" where
  "collectFromRepository api repoInput options =
     (case parseRepository repoInput of
        Inl e \<Rightarrow> Inl e
      | Inr r \<Rightarrow>
          (let rn = repositoryName_of r;
               withContributors = (includeContributors options \<noteq> Some False);
               withCommits = (includeCommits options \<noteq> Some False);
               c = collectFromContributors api rn;
               cs = (if withContributors \<and> thrown c = None then emails c else []);
               k = collectFromCommits api rn (maxCommits_of options);
               ks = (if withCommits \<and> c_thrown k = None then c_emails k else []);
               emailMap = set_new (set_all [] cs) ks
           in Inr \<lparr>repositoryName = rn,
                   contributorEmails = cs,
                   commitEmails = ks,
                   allEmails = map snd emailMap,
                   validEmails = filter (\<lambda>e. filterInvalidEmails (email e)) (map snd emailMap),
                   errorEvents =
                     (if withContributors
                      then (case thrown c of None \<Rightarrow> []
                            | Some msg \<Rightarrow> [''Error collecting from contributors: '' @ msg])
                      else []) @
                     (if withCommits
                      then (case c_thrown k of None \<Rightarrow> []
                            | Some msg \<Rightarrow> [''Error collecting from commits: '' @ msg])
                      else []),
                   contributorPages = (if withContributors then fetched c else []),
                   commitPages = (if withCommits then c_fetched k else [])\<rparr>))"

subsection \<open>Example clients and stop conditions\<close>

text \<open>A state in which the pass goes on, or has one of its three reasons to stop.\<close>

definition may_stop :: "contributors_run \<Rightarrow> bool" where
  "may_stop st =
     (consecutiveEmptyPages st \<ge> maxConsecutiveEmptyPages \<or> page st \<ge> maxPages \<or>
      consecutiveErrors st \<ge> maxConsecutiveErrors)"

text \<open>
  Clients for the examples: one whose pages of contributors have 100, 100, 0, 0
  and 0 anonymous entries without address and no link to a next page; one whose
  contributors fail with a rate-limit error while the commits have one author;
  one where a contributor and a commit author share an address; and one whose
  pages of contributors are returned while every profile and every page of
  commits fails with a rate-limit error.
\<close>

definition page_sizes_example :: github_api where
  "page_sizes_example =
     \<lparr>getContributorsWithPagination =
        (\<lambda>k p. Returns \<lparr>contributors =
                             replicate ([100, 100, 0, 0, 0, 100] ! min k 5)
                               \<lparr>login = None, user_email = None, user_name = None\<rparr>,
                           hasNextPage = False\<rparr>),
      getUser = (\<lambda>l. Throws ''GitHub API error: 404 - Not Found'' None),
      getCommits = (\<lambda>k p. Returns [])\<rparr>"

definition rate_limited_api :: github_api where
  "rate_limited_api =
     \<lparr>getContributorsWithPagination =
        (\<lambda>k p. Throws ''GitHub API rate limit exceeded. Reset at 11/3/2026, 9:00:00 AM. Please wait and try again.'' None),
      getUser = (\<lambda>l. Throws ''GitHub API error: 404 - Not Found'' None),
      getCommits =
        (\<lambda>k p. Returns [\<lparr>commit_author = Some \<lparr>author_email = Some ''Jane@Dev.org'',
                                                 author_name = Some ''Jane''\<rparr>,
                            author_login = Some ''jane''\<rparr>])\<rparr>"

definition default_options :: collect_options where
  "default_options = \<lparr>includeContributors = None, includeCommits = None, maxCommits = None\<rparr>"

definition shared_address_api :: github_api where
  "shared_address_api =
     \<lparr>getContributorsWithPagination =
        (\<lambda>k p. if p = 1
                then Returns \<lparr>contributors =
                                [\<lparr>login = Some ''jane'', user_email = None, user_name = None\<rparr>,
                                 \<lparr>login = None, user_email = Some ''Bob@dev.org'',
                                  user_name = None\<rparr>],
                              hasNextPage = False\<rparr>
                else Returns \<lparr>contributors = [], hasNextPage = False\<rparr>),
      getUser =
        (\<lambda>l. Returns \<lparr>login = Some l, user_email = Some ''Jane@Dev.org'',
                        user_name = Some ''Jane D''\<rparr>),
      getCommits =
        (\<lambda>k p. Returns [\<lparr>commit_author = Some \<lparr>author_email = Some '' JANE@dev.org'',
                                                 author_name = Some ''Jane''\<rparr>,
                            author_login = Some ''jane''\<rparr>,
                          \<lparr>commit_author = Some \<lparr>author_email = Some ''carl@dev.org'',
                                                 author_name = Some ''Carl''\<rparr>,
                            author_login = None\<rparr>])\<rparr>"

definition profile_rate_limited_api :: github_api where
  "profile_rate_limited_api =
     \<lparr>getContributorsWithPagination =
        (\<lambda>k p. Returns \<lparr>contributors =
                             (if p = 1
                              then [\<lparr>login = Some ''jane'', user_email = None, user_name = None\<rparr>,
                                    \<lparr>login = None, user_email = Some ''Bob@dev.org'',
                                     user_name = None\<rparr>]
                              else []),
                           hasNextPage = False\<rparr>),
      getUser = (\<lambda>l. Throws ''GitHub API rate limit exceeded. Reset at 11/3/2026, 9:00:00 AM. Please wait and try again.'' None),
      getCommits = (\<lambda>k p. Throws ''GitHub API rate limit exceeded. Reset at 11/3/2026, 9:00:00 AM. Please wait and try again.'' None)\<rparr>"

section \<open>Properties of parseRepository\<close>

lemma includes_slash_iff: "js_includes s ''/'' \<longleftrightarrow> CHR ''/'' \<in> set s"
  by (induction s) auto

text \<open>
  Claim C10. parseRepository throws the invalid-format error exactly for the inputs
  that hold no slash; an input that starts with \<open>http\<close>, holds a slash and does not
  match the \<open>github.com/owner/repo\<close> pattern is not rejected: the call returns an
  object whose owner and repo are both undefined.
\<close>

theorem parseRepository_throws_iff_no_slash:
  "(parseRepository s = Inl InvalidRepositoryFormat \<longleftrightarrow> CHR ''/'' \<notin> set s) \<and>
   (startsWith s ''http'' \<and> CHR ''/'' \<in> set s \<and> github_match s = None \<longrightarrow>
      parseRepository s = Inr \<lparr>owner = None, repo = None\<rparr>)"
  by (auto simp: parseRepository_def includes_slash_iff Let_def split: option.splits)

theorem parseRepository_throws_iff_no_slash_witness:
  "startsWith ''http://example.com/foo'' ''http'' \<and>
   CHR ''/'' \<in> set ''http://example.com/foo'' \<and>
   github_match ''http://example.com/foo'' = None \<and>
   parseRepository ''http://example.com/foo'' = Inr \<lparr>owner = None, repo = None\<rparr> \<and>
   parseRepository ''octocat'' = Inl InvalidRepositoryFormat"
  using parseRepository_throws_iff_no_slash [of "''http://example.com/foo''"]
        parseRepository_throws_iff_no_slash [of "''octocat''"]
  by (simp add: match_here_def)

section \<open>Properties of EmailSender\<close>

declare fixed_size_batches.simps [simp del]

declare send_batches.simps [simp del]

subsection \<open>The batch loop\<close>

lemma batchSize_of_pos: "0 < batchSize_of options"
  by (simp add: batchSize_of_def split: option.splits)

lemma fixed_size_batches_Nil_iff:
  "fixed_size_batches n xs = [] \<longleftrightarrow> n = 0 \<or> xs = []"
  by (subst fixed_size_batches.simps) simp

lemma fixed_size_batches_Nil [simp]: "fixed_size_batches n [] = []"
  by (subst fixed_size_batches.simps) simp

lemma intersperse_Cons:
  "intersperse s (x # xs) = (if xs = [] then [x] else x # s # intersperse s xs)"
  by (cases xs) simp_all

lemma send_batches_events:
  "events (send_batches tr subj h t options addrs i st) =
     events st @ intersperse (Sleep (delay_of options))
                   (map Batch (fixed_size_batches (batchSize_of options) (drop i addrs)))"
proof (induction tr subj h t options addrs i st rule: send_batches.induct)
  case (1 tr subj h t options addrs i st)
  show ?case
  proof (cases "i < length addrs")
    case False
    then show ?thesis
      by (subst send_batches.simps, subst fixed_size_batches.simps) simp
  next
    case True
    note IH = 1 [OF True refl refl refl refl]
    have unfold: "fixed_size_batches (batchSize_of options) (drop i addrs) =
        take (batchSize_of options) (drop i addrs)
          # fixed_size_batches (batchSize_of options) (drop (i + batchSize_of options) addrs)"
      using True batchSize_of_pos [of options]
      by (subst fixed_size_batches.simps) (simp add: add.commute)
    show ?thesis
      using True batchSize_of_pos [of options]
      by (subst send_batches.simps)
         (simp add: IH unfold Let_def intersperse_Cons fixed_size_batches_Nil_iff)
  qed
qed

subsection \<open>The summary\<close>

lemma sent_foldl_push:
  "sent (foldl push_result r os) = sent r @ filter success os"
  by (induction os arbitrary: r) (simp_all add: push_result_def)

lemma failed_foldl_push:
  "failed (foldl push_result r os) = failed r @ filter (\<lambda>x. \<not> success x) os"
  by (induction os arbitrary: r) (simp_all add: push_result_def)

lemma total_foldl_push:
  "total (foldl push_result r os) = total r"
  by (induction os arbitrary: r) (simp_all add: push_result_def)

lemma enumerate_take_drop:
  "enumerate i (take n (drop i xs)) @ enumerate (i + n) (drop (i + n) xs) = enumerate i (drop i xs)"
proof (cases "n \<le> length xs - i")
  case True
  have "enumerate i (take n (drop i xs) @ drop n (drop i xs)) = enumerate i (drop i xs)"
    by (simp only: append_take_drop_id)
  then show ?thesis
    using True by (auto simp add: enumerate_append_eq min_def add.commute split: if_splits)
next
  case False
  then show ?thesis by simp
qed

lemma send_batches_results:
  "results (send_batches tr subj h t options addrs i st) =
     foldl push_result (results st)
       (map (send_item tr subj h t) (enumerate i (drop i addrs)))"
proof (induction tr subj h t options addrs i st rule: send_batches.induct)
  case (1 tr subj h t options addrs i st)
  show ?case
  proof (cases "i < length addrs")
    case False
    then show ?thesis
      by (subst send_batches.simps) simp
  next
    case True
    note IH = 1 [OF True refl refl refl refl]
    have "results (send_batches tr subj h t options addrs i st) =
        foldl push_result (results st)
          (map (send_item tr subj h t)
             (enumerate i (take (batchSize_of options) (drop i addrs))
              @ enumerate (i + batchSize_of options) (drop (i + batchSize_of options) addrs)))"
      using True
      by (subst send_batches.simps) (simp add: IH Let_def)
    then show ?thesis
      by (simp only: enumerate_take_drop)
  qed
qed

subsection \<open>The outcome of an item\<close>

lemma send_item_email:
  "outcome.email (send_item tr subj h t (k, item)) =
     (case item of
        ItemStr s \<Rightarrow> AddrStr (if s = [] then ''unknown'' else s)
      | ItemObj obj \<Rightarrow>
          if truthy (item_email obj) then AddrStr (or_empty (item_email obj)) else AddrObj obj)"
  by (auto simp: send_item_def emailAddress_of_def sendEmail_def truthy_def or_empty_def
           split: email_item.splits send_reply.splits option.splits)

lemma send_item_success:
  "success (send_item tr subj h t (k, item)) \<longleftrightarrow>
     (\<exists>a mid resp. emailAddress_of item = AddrStr a \<and> a \<noteq> [] \<and>
        sendMail tr k
          \<lparr>to = a, subject = subj, html = renderTemplate h (variables_of a item),
           text_part =
             (if truthy t \<and> renderTemplate (or_empty t) (variables_of a item) \<noteq> []
              then Some (renderTemplate (or_empty t) (variables_of a item)) else None)\<rparr>
          = Accepted mid resp)"
  by (auto simp: send_item_def sendEmail_def truthy_def
           split: address.splits send_reply.splits)

lemma map_send_item_nth:
  "k < length addrs \<Longrightarrow>
     map (send_item tr subj h t) (enumerate 0 addrs) ! k = send_item tr subj h t (k, addrs ! k)"
  by (simp add: nth_enumerate_eq)

lemma map_email_send_item:
  "map outcome.email (map (send_item tr subj h t) (enumerate n addrs)) =
     map (\<lambda>item. case item of
            ItemStr s \<Rightarrow> AddrStr (if s = [] then ''unknown'' else s)
          | ItemObj obj \<Rightarrow>
              if truthy (item_email obj) then AddrStr (or_empty (item_email obj))
              else AddrObj obj) addrs"
  by (induction addrs arbitrary: n) (simp_all add: send_item_email)

subsection \<open>Fixed-size batches\<close>

lemma concat_fixed_size_batches:
  "0 < n \<Longrightarrow> concat (fixed_size_batches n xs) = xs"
proof (induction n xs rule: fixed_size_batches.induct)
  case (1 n xs)
  then show ?case
    by (subst fixed_size_batches.simps) simp
qed

lemma butlast_fixed_size_batches:
  "b \<in> set (butlast (fixed_size_batches n xs)) \<Longrightarrow> length b = n"
proof (induction n xs arbitrary: b rule: fixed_size_batches.induct)
  case (1 n xs)
  show ?case
  proof (cases "n = 0 \<or> xs = []")
    case True
    with 1(2) show ?thesis
      by (subst (asm) fixed_size_batches.simps) simp
  next
    case False
    with 1(2) have mem: "b \<in> set (butlast (take n xs # fixed_size_batches n (drop n xs)))"
      by (subst (asm) fixed_size_batches.simps) simp
    show ?thesis
    proof (cases "fixed_size_batches n (drop n xs) = []")
      case True
      with mem show ?thesis by simp
    next
      case nonempty: False
      then have "drop n xs \<noteq> []"
        by (simp add: fixed_size_batches_Nil_iff)
      then have len: "length (take n xs) = n" by simp
      from mem nonempty have "b = take n xs \<or> b \<in> set (butlast (fixed_size_batches n (drop n xs)))"
        by simp
      then show ?thesis
        using len 1(1) [OF False] by blast
    qed
  qed
qed

lemma last_fixed_size_batches:
  "fixed_size_batches n xs \<noteq> [] \<Longrightarrow>
     0 < length (last (fixed_size_batches n xs)) \<and> length (last (fixed_size_batches n xs)) \<le> n"
proof (induction n xs rule: fixed_size_batches.induct)
  case (1 n xs)
  from 1(2) have ne: "\<not> (n = 0 \<or> xs = [])"
    by (simp add: fixed_size_batches_Nil_iff)
  have unfold: "fixed_size_batches n xs = take n xs # fixed_size_batches n (drop n xs)"
    using ne by (subst fixed_size_batches.simps) simp
  show ?case
  proof (cases "fixed_size_batches n (drop n xs) = []")
    case True
    then show ?thesis using ne by (simp add: unfold)
  next
    case False
    then show ?thesis using 1(1) [OF ne] by (simp add: unfold)
  qed
qed

lemma fixed_size_batches_12:
  assumes "length xs = 12"
  shows "fixed_size_batches 5 xs = [take 5 xs, take 5 (drop 5 xs), drop 10 xs]"
proof -
  have a: "xs \<noteq> []" "drop 5 xs \<noteq> []" "drop 10 xs \<noteq> []"
    using assms by auto
  have b: "fixed_size_batches 5 (drop 10 xs) = [drop 10 xs]"
    using a assms by (subst fixed_size_batches.simps) simp
  have c: "fixed_size_batches 5 (drop 5 xs) = [take 5 (drop 5 xs), drop 10 xs]"
    using a by (subst fixed_size_batches.simps) (simp add: b)
  show ?thesis
    using a by (subst fixed_size_batches.simps) (simp add: c)
qed

text \<open>
  Claim C6, as the code has it. Once the connection is verified, the dispatcher
  works through the address list in batches: the events are the batches of
  \<open>fixed_size_batches\<close> in list order with one delay of \<open>delay_of options\<close> between
  any two consecutive batches and none after the last. The batches concatenate to
  the list, each batch before the last has exactly \<open>batchSize_of options\<close> items
  and the last one between one item and that many. The batch size and the delay
  are those of the options when they are positive; an option that is left out or
  is zero takes the default, 5 items and 1000 ms.
  For every list of 12 addresses and batch size 5 the batches have the sizes
  5, 5 and 2 and the delay is invoked exactly twice.
\<close>

theorem sendBulkEmails_batches:
  assumes "verify tr = Verified"
  shows "\<exists>st. sendBulkEmails tr addrs subj h t options = Inr st \<and>
           events st = intersperse (Sleep (delay_of options))
                         (map Batch (fixed_size_batches (batchSize_of options) addrs)) \<and>
           concat (fixed_size_batches (batchSize_of options) addrs) = addrs \<and>
           (\<forall>b \<in> set (butlast (fixed_size_batches (batchSize_of options) addrs)).
              length b = batchSize_of options) \<and>
           (addrs \<noteq> [] \<longrightarrow>
              0 < length (last (fixed_size_batches (batchSize_of options) addrs)) \<and>
              length (last (fixed_size_batches (batchSize_of options) addrs))
                \<le> batchSize_of options) \<and>
           (batchSize options = None \<longrightarrow> batchSize_of options = 5) \<and>
           (delay options = None \<longrightarrow> delay_of options = 1000) \<and>
           (\<forall>n. batchSize options = Some n \<and> 0 < n \<longrightarrow> batchSize_of options = n) \<and>
           (\<forall>d. delay options = Some d \<and> 0 < d \<longrightarrow> delay_of options = d) \<and>
           (batchSize options = Some 0 \<longrightarrow> batchSize_of options = 5) \<and>
           (delay options = Some 0 \<longrightarrow> delay_of options = 1000) \<and>
           (length addrs = 12 \<and> batchSize_of options = 5 \<longrightarrow>
              map length (batches_of (events st)) = [5, 5, 2] \<and>
              sleeps_of (events st) = [delay_of options, delay_of options])"
proof -
  let ?st = "send_batches tr subj h t options addrs 0
               \<lparr>results = \<lparr>sent = [], failed = [], total = length addrs\<rparr>, events = []\<rparr>"
  have run: "sendBulkEmails tr addrs subj h t options = Inr ?st"
    using assms by (simp add: sendBulkEmails_def)
  have ev: "events ?st = intersperse (Sleep (delay_of options))
                         (map Batch (fixed_size_batches (batchSize_of options) addrs))"
    by (simp add: send_batches_events)
  have ex: "length addrs = 12 \<and> batchSize_of options = 5 \<longrightarrow>
              map length (batches_of (events ?st)) = [5, 5, 2] \<and>
              sleeps_of (events ?st) = [delay_of options, delay_of options]"
    by (auto simp: send_batches_events fixed_size_batches_12)
  have lst: "addrs \<noteq> [] \<longrightarrow>
              0 < length (last (fixed_size_batches (batchSize_of options) addrs)) \<and>
              length (last (fixed_size_batches (batchSize_of options) addrs))
                \<le> batchSize_of options"
    using last_fixed_size_batches [of "batchSize_of options" addrs] batchSize_of_pos [of options]
    by (simp add: fixed_size_batches_Nil_iff)
  show ?thesis
    using run ev ex lst concat_fixed_size_batches [OF batchSize_of_pos, of options addrs]
      butlast_fixed_size_batches [of _ "batchSize_of options" addrs]
    by (auto simp: batchSize_of_def delay_of_def)
qed

theorem sendBulkEmails_batches_witness:
  "verify example_transporter = Verified \<and>
   length example_addresses = 12 \<and>
   batchSize \<lparr>batchSize = None, delay = None\<rparr> = None \<and>
   (\<exists>st. sendBulkEmails example_transporter example_addresses ''Hello'' ''<p>Hi {{name}}</p>'' None
            \<lparr>batchSize = None, delay = None\<rparr> = Inr st \<and>
         map length (batches_of (events st)) = [5, 5, 2] \<and>
         sleeps_of (events st) = [1000, 1000]) \<and>
   (\<exists>st. sendBulkEmails example_transporter example_addresses ''Hello'' ''<p>Hi {{name}}</p>'' None
            \<lparr>batchSize = Some 5, delay = Some 250\<rparr> = Inr st \<and>
         map length (batches_of (events st)) = [5, 5, 2] \<and>
         sleeps_of (events st) = [250, 250]) \<and>
   (\<exists>st. sendBulkEmails example_transporter example_addresses ''Hello'' ''<p>Hi {{name}}</p>'' None
            \<lparr>batchSize = Some 0, delay = Some 0\<rparr> = Inr st \<and>
         map length (batches_of (events st)) = [5, 5, 2] \<and>
         sleeps_of (events st) = [1000, 1000])"
proof -
  have v: "verify example_transporter = Verified"
    by (simp add: example_transporter_def)
  have l: "length example_addresses = 12"
    by (simp add: example_addresses_def)
  have a: "\<exists>st. sendBulkEmails example_transporter example_addresses ''Hello'' ''<p>Hi {{name}}</p>'' None
            \<lparr>batchSize = None, delay = None\<rparr> = Inr st \<and>
         map length (batches_of (events st)) = [5, 5, 2] \<and>
         sleeps_of (events st) = [1000, 1000]"
    using sendBulkEmails_batches [OF v, of example_addresses "''Hello''" "''<p>Hi {{name}}</p>''"
        None "\<lparr>batchSize = None, delay = None\<rparr>"] l
    by (auto simp: batchSize_of_def delay_of_def)
  have b: "\<exists>st. sendBulkEmails example_transporter example_addresses ''Hello'' ''<p>Hi {{name}}</p>'' None
            \<lparr>batchSize = Some 5, delay = Some 250\<rparr> = Inr st \<and>
         map length (batches_of (events st)) = [5, 5, 2] \<and>
         sleeps_of (events st) = [250, 250]"
    using sendBulkEmails_batches [OF v, of example_addresses "''Hello''" "''<p>Hi {{name}}</p>''"
        None "\<lparr>batchSize = Some 5, delay = Some 250\<rparr>"] l
    by (auto simp: batchSize_of_def delay_of_def)
  have c: "\<exists>st. sendBulkEmails example_transporter example_addresses ''Hello'' ''<p>Hi {{name}}</p>'' None
            \<lparr>batchSize = Some 0, delay = Some 0\<rparr> = Inr st \<and>
         map length (batches_of (events st)) = [5, 5, 2] \<and>
         sleeps_of (events st) = [1000, 1000]"
    using sendBulkEmails_batches [OF v, of example_addresses "''Hello''" "''<p>Hi {{name}}</p>''"
        None "\<lparr>batchSize = Some 0, delay = Some 0\<rparr>"] l
    by (auto simp: batchSize_of_def delay_of_def)
  from v l a b c show ?thesis by simp
qed

text \<open>
  The claim as worded has the dispatcher sleep for the configured delay. With a
  configured delay of 0 ms the code takes the default: between the two batches of
  this run it sleeps for 1000 ms.
\<close>

theorem sendBulkEmails_zero_delay_sleeps_default:
  "delay \<lparr>batchSize = Some 1, delay = Some 0\<rparr> = Some 0 \<and>
   map_sum id events
     (sendBulkEmails example_transporter [ItemStr ''a@dev.org'', ItemStr ''b@dev.org'']
        ''Hello'' ''Hi {{name}}'' None \<lparr>batchSize = Some 1, delay = Some 0\<rparr>) =
     Inr [Batch [ItemStr ''a@dev.org''], Sleep 1000, Batch [ItemStr ''b@dev.org'']]"
  by code_simp

text \<open>
  Claim C9. Whenever the connection is verified, the summary partitions the input
  list. Every item of the list has exactly one outcome, \<open>send_item\<close> at its
  position, and the outcome carries the address of its item: the address string
  (the text \<open>unknown\<close> for an empty one), the \<open>email\<close> field of an object, or the
  object itself when that field is missing. An outcome is a success exactly when
  its address is a string that is not empty and the transporter accepted the
  rendered message for it. The successful outcomes are the sent list and the
  others the failed list, both in list order and with no outcome in both, and the
  two lengths add up to \<open>total\<close>, the length of the input. This holds for every
  answer of the transporter to the single sends.
\<close>

theorem sendBulkEmails_summary_partition:
  assumes "verify tr = Verified"
  shows "\<exists>st. sendBulkEmails tr addrs subj h t options = Inr st \<and>
           sent (results st) =
             filter success (map (send_item tr subj h t) (enumerate 0 addrs)) \<and>
           failed (results st) =
             filter (\<lambda>r. \<not> success r) (map (send_item tr subj h t) (enumerate 0 addrs)) \<and>
           length (map (send_item tr subj h t) (enumerate 0 addrs)) = length addrs \<and>
           map outcome.email (map (send_item tr subj h t) (enumerate 0 addrs)) =
             map (\<lambda>item. case item of
                    ItemStr s \<Rightarrow> AddrStr (if s = [] then ''unknown'' else s)
                  | ItemObj obj \<Rightarrow>
                      if truthy (item_email obj) then AddrStr (or_empty (item_email obj))
                      else AddrObj obj) addrs \<and>
           (\<forall>k < length addrs.
              map (send_item tr subj h t) (enumerate 0 addrs) ! k =
                send_item tr subj h t (k, addrs ! k) \<and>
              (success (send_item tr subj h t (k, addrs ! k)) \<longleftrightarrow>
                 (\<exists>a mid resp. emailAddress_of (addrs ! k) = AddrStr a \<and> a \<noteq> [] \<and>
                    sendMail tr k
                      \<lparr>to = a, subject = subj,
                       html = renderTemplate h (variables_of a (addrs ! k)),
                       text_part =
                         (if truthy t \<and>
                             renderTemplate (or_empty t) (variables_of a (addrs ! k)) \<noteq> []
                          then Some (renderTemplate (or_empty t) (variables_of a (addrs ! k)))
                          else None)\<rparr>
                      = Accepted mid resp))) \<and>
           set (sent (results st)) \<inter> set (failed (results st)) = {} \<and>
           total (results st) = length addrs \<and>
           length (sent (results st)) + length (failed (results st)) = total (results st)"
proof -
  let ?st = "send_batches tr subj h t options addrs 0
               \<lparr>results = \<lparr>sent = [], failed = [], total = length addrs\<rparr>, events = []\<rparr>"
  let ?outs = "map (send_item tr subj h t) (enumerate 0 addrs)"
  have run: "sendBulkEmails tr addrs subj h t options = Inr ?st"
    using assms by (simp add: sendBulkEmails_def)
  have res: "results ?st = foldl push_result \<lparr>sent = [], failed = [], total = length addrs\<rparr> ?outs"
    by (simp add: send_batches_results)
  have s: "sent (results ?st) = filter success ?outs"
    by (simp add: res sent_foldl_push)
  have f: "failed (results ?st) = filter (\<lambda>r. \<not> success r) ?outs"
    by (simp add: res failed_foldl_push)
  have tot: "total (results ?st) = length addrs"
    by (simp add: res total_foldl_push)
  have len: "length ?outs = length addrs"
    by simp
  have sum: "length (sent (results ?st)) + length (failed (results ?st)) = total (results ?st)"
    using sum_length_filter_compl [of success ?outs] by (simp only: s f tot len)
  have disj: "set (sent (results ?st)) \<inter> set (failed (results ?st)) = {}"
    unfolding s f by auto
  have each: "\<forall>k < length addrs.
              ?outs ! k = send_item tr subj h t (k, addrs ! k) \<and>
              (success (send_item tr subj h t (k, addrs ! k)) \<longleftrightarrow>
                 (\<exists>a mid resp. emailAddress_of (addrs ! k) = AddrStr a \<and> a \<noteq> [] \<and>
                    sendMail tr k
                      \<lparr>to = a, subject = subj,
                       html = renderTemplate h (variables_of a (addrs ! k)),
                       text_part =
                         (if truthy t \<and>
                             renderTemplate (or_empty t) (variables_of a (addrs ! k)) \<noteq> []
                          then Some (renderTemplate (or_empty t) (variables_of a (addrs ! k)))
                          else None)\<rparr>
                      = Accepted mid resp))"
    using map_send_item_nth [of _ addrs tr subj h t] send_item_success [of tr subj h t]
    by blast
  show ?thesis
    using run s f len map_email_send_item [of tr subj h t 0 addrs] each disj tot sum
    by blast
qed

theorem sendBulkEmails_summary_partition_witness:
  "verify example_transporter = Verified \<and>
   (\<exists>st. sendBulkEmails example_transporter example_addresses ''Hello'' ''<p>Hi {{name}}</p>'' None
            \<lparr>batchSize = None, delay = None\<rparr> = Inr st \<and>
         map outcome.email (sent (results st)) =
           [AddrStr ''a@dev.org'', AddrStr ''aaa@dev.org'', AddrStr ''aaaaa@dev.org'',
            AddrStr ''aaaaaaa@dev.org'', AddrStr ''aaaaaaaaa@dev.org'',
            AddrStr ''aaaaaaaaaaa@dev.org''] \<and>
         map outcome.email (failed (results st)) =
           [AddrStr ''aa@dev.org'', AddrStr ''aaaa@dev.org'', AddrStr ''aaaaaa@dev.org'',
            AddrStr ''aaaaaaaa@dev.org'', AddrStr ''aaaaaaaaaa@dev.org'',
            AddrStr ''aaaaaaaaaaaa@dev.org''] \<and>
         length (sent (results st)) = 6 \<and> length (failed (results st)) = 6 \<and>
         total (results st) = 12)"
proof -
  let ?outs = "map (send_item example_transporter ''Hello'' ''<p>Hi {{name}}</p>'' None)
                 (enumerate 0 example_addresses)"
  have v: "verify example_transporter = Verified"
    by (simp add: example_transporter_def)
  from sendBulkEmails_summary_partition [OF v, of example_addresses "''Hello''"
        "''<p>Hi {{name}}</p>''" None "\<lparr>batchSize = None, delay = None\<rparr>"]
  obtain st where st:
    "sendBulkEmails example_transporter example_addresses ''Hello'' ''<p>Hi {{name}}</p>'' None
       \<lparr>batchSize = None, delay = None\<rparr> = Inr st"
    "sent (results st) = filter success ?outs"
    "failed (results st) = filter (\<lambda>r. \<not> success r) ?outs"
    "total (results st) = length example_addresses"
    by blast
  have s: "map outcome.email (filter success ?outs) =
           [AddrStr ''a@dev.org'', AddrStr ''aaa@dev.org'', AddrStr ''aaaaa@dev.org'',
            AddrStr ''aaaaaaa@dev.org'', AddrStr ''aaaaaaaaa@dev.org'',
            AddrStr ''aaaaaaaaaaa@dev.org'']"
    by code_simp
  have f: "map outcome.email (filter (\<lambda>r. \<not> success r) ?outs) =
           [AddrStr ''aa@dev.org'', AddrStr ''aaaa@dev.org'', AddrStr ''aaaaaa@dev.org'',
            AddrStr ''aaaaaaaa@dev.org'', AddrStr ''aaaaaaaaaa@dev.org'',
            AddrStr ''aaaaaaaaaaaa@dev.org'']"
    by code_simp
  have l: "length example_addresses = 12"
    by (simp add: example_addresses_def)
  have ls: "length (sent (results st)) = 6"
    using arg_cong [OF s, of length] by (simp add: st(2))
  have lf: "length (failed (results st)) = 6"
    using arg_cong [OF f, of length] by (simp add: st(3))
  show ?thesis
    using v st(1) s f l ls lf st(4) by (auto simp: st(2) st(3))
qed

text \<open>
  Claim C7 (not met by the code). A value is handed to \<open>replace\<close> as the replacement
  text, whose dollar patterns are expanded: the name \<open>A$$B\<close> is rendered as \<open>A$B\<close>,
  and the name \<open>$&\<close> is rendered as the placeholder itself. The keys are replaced
  one after the other, so a name that reads as the placeholder of the username is
  rendered as the username.
\<close>

theorem renderTemplate_dollar_patterns:
  "variables_of ''a@dev.org''
     (ItemObj \<lparr>item_email = Some ''a@dev.org'', item_name = Some ''A$$B'',
               item_username = None, item_repository = None\<rparr>) =
     [(''email'', Some ''a@dev.org''), (''name'', Some ''A$$B''),
      (''username'', Some []), (''repository'', Some [])] \<and>
   renderTemplate ''Hi {{name}}''
     [(''email'', Some ''a@dev.org''), (''name'', Some ''A$$B''),
      (''username'', Some []), (''repository'', Some [])] = ''Hi A$B'' \<and>
   renderTemplate ''Hi {{name}}''
     [(''email'', Some ''a@dev.org''), (''name'', Some ''$&''),
      (''username'', Some []), (''repository'', Some [])] = ''Hi {{name}}'' \<and>
   renderTemplate ''Hi {{name}}''
     [(''email'', Some ''a@dev.org''), (''name'', Some ''{{username}}''),
      (''username'', Some ''bob''), (''repository'', Some [])] = ''Hi bob''"
  by code_simp

section \<open>Properties of GitHubAPI.request\<close>

declare request.simps [simp del]

subsection \<open>The check before the call\<close>

lemma before_request_cases:
  "before_request st = st \<or>
   (\<exists>rem reset. rateLimitRemaining st = Some rem \<and> rem \<le> 10 \<and> rateLimitReset st = Some reset \<and>
      now st + 1000 < reset \<and> reset < now st + 3600000 \<and>
      before_request st = st\<lparr>now := reset + 2000, rateLimitRemaining := Some 5000,
                               log := log st @ [QuotaWait (reset - now st + 2000)]\<rparr>)"
  by (auto simp: before_request_def hasValidRateLimitInfo_def js_le_def js_gt_def sleep_def Let_def
           split: option.splits)

lemma before_request_wait:
  assumes "rateLimitRemaining st = Some rem" "rem \<le> 10" "rateLimitReset st = Some reset"
    "now st + 1000 < reset" "reset < now st + 3600000"
  shows "before_request st = st\<lparr>now := reset + 2000, rateLimitRemaining := Some 5000,
                               log := log st @ [QuotaWait (reset - now st + 2000)]\<rparr>"
  using assms
  by (simp add: before_request_def hasValidRateLimitInfo_def js_le_def js_gt_def sleep_def Let_def)

lemma before_request_no_wait:
  assumes "\<not> (\<exists>rem reset. rateLimitRemaining st = Some rem \<and> rem \<le> 10 \<and>
              rateLimitReset st = Some reset \<and> now st + 1000 < reset \<and> reset < now st + 3600000)"
  shows "before_request st = st"
  using assms
  by (auto simp: before_request_def hasValidRateLimitInfo_def js_le_def js_gt_def sleep_def Let_def
           split: option.splits)

lemma log_before_request: "prefix (log st) (log (before_request st))"
  using before_request_cases [of st] by auto

subsection \<open>The branches of request\<close>

lemma request_resolved:
  assumes "axios (baseURL @ ep) (calls (before_request st)) (now (before_request st)) = (Resolved resp, el)"
  shows "request axios ep r st =
           (Inr resp, update_rate_limit (headers resp) (after_call (baseURL @ ep) el (before_request st)))"
  by (subst request.simps) (simp add: assms)

lemma request_network_retry:
  assumes "axios (baseURL @ ep) (calls (before_request st)) (now (before_request st)) = (Rejected e, el)"
    and "isNetworkError e" and "0 < r"
  shows "request axios ep r st =
           request axios ep (r - 1)
             (sleep Backoff (backoffDelay r) (after_call (baseURL @ ep) el (before_request st)))"
  by (subst request.simps) (simp add: assms)

lemma request_rate_limit_retry:
  assumes "axios (baseURL @ ep) (calls (before_request st)) (now (before_request st)) = (Rejected e, el)"
    and "\<not> (isNetworkError e \<and> 0 < r)" and "response e = Some resp" and "isRateLimit resp"
    and "x_ratelimit_reset (headers resp) = Num reset"
    and "0 < r"
    and "max 0 (reset * 1000 - now (after_call (baseURL @ ep) el (before_request st))) < 3600000"
  shows "request axios ep r st =
           request axios ep (r - 1)
             ((sleep ResetWait
                 (max 0 (reset * 1000 - now (after_call (baseURL @ ep) el (before_request st))) + 2000)
                 (after_call (baseURL @ ep) el (before_request st)))
                \<lparr>rateLimitRemaining := Some 5000\<rparr>)"
  using assms by (subst request.simps) (simp add: parseInt_def js_lt_def Let_def)

lemma request_rate_limit_throw:
  assumes "axios (baseURL @ ep) (calls (before_request st)) (now (before_request st)) = (Rejected e, el)"
    and "\<not> (isNetworkError e \<and> 0 < r)" and "response e = Some resp" and "isRateLimit resp"
    and "\<not> (0 < r \<and> js_lt (map_option (\<lambda>t. max 0 (t - now (after_call (baseURL @ ep) el (before_request st))))
                              (map_option (\<lambda>n. n * 1000) (parseInt (x_ratelimit_reset (headers resp)))))
                         3600000)"
  shows "request axios ep r st =
           (Inl (RateLimitExceeded (map_option (\<lambda>n. n * 1000) (parseInt (x_ratelimit_reset (headers resp))))),
            after_call (baseURL @ ep) el (before_request st))"
  using assms by (subst request.simps) (auto simp add: Let_def)

lemma request_api_error:
  assumes "axios (baseURL @ ep) (calls (before_request st)) (now (before_request st)) = (Rejected e, el)"
    and "\<not> (isNetworkError e \<and> 0 < r)" and "response e = Some resp" and "\<not> isRateLimit resp"
  shows "request axios ep r st =
           (Inl (ApiError (status resp) (first_some (data resp) (message e))),
            after_call (baseURL @ ep) el (before_request st))"
  using assms by (subst request.simps) (auto simp add: Let_def)

lemma request_no_response:
  assumes "axios (baseURL @ ep) (calls (before_request st)) (now (before_request st)) = (Rejected e, el)"
    and "\<not> (isNetworkError e \<and> 0 < r)" and "response e = None"
  shows "request axios ep r st =
           ((if isNetworkError e then Inl (NetworkErrorAfterRetries (first_some (code e) (message e)))
             else Inl (Rethrown e)),
            after_call (baseURL @ ep) el (before_request st))"
  using assms by (subst request.simps) (auto simp add: Let_def)

subsection \<open>The events only grow\<close>

lemma log_after_call [simp]: "log (after_call u el st) = log st @ [Get u (now st)]"
  by (simp add: after_call_def)

lemma log_sleep [simp]: "log (sleep k d st) = log st @ [k d]"
  by (simp add: sleep_def)

lemma log_update_rate_limit [simp]: "log (update_rate_limit h st) = log st"
  by (simp add: update_rate_limit_def)

lemma log_request: "prefix (log st) (log (snd (request axios ep r st)))"
proof (induction r arbitrary: st)
  case 0
  let ?st1 = "before_request st"
  obtain res el where ax: "axios (baseURL @ ep) (calls ?st1) (now ?st1) = (res, el)"
    by (cases "axios (baseURL @ ep) (calls ?st1) (now ?st1)")
  have "prefix (log ?st1) (log (snd (request axios ep 0 st)))"
  proof (cases res)
    case (Resolved resp)
    then show ?thesis using ax by (simp add: request_resolved)
  next
    case (Rejected e)
    note ax' = ax [unfolded Rejected]
    have nn: "\<not> (isNetworkError e \<and> 0 < (0::nat))" by simp
    show ?thesis
    proof (cases "response e")
      case None
      then show ?thesis using request_no_response [where axios = axios and ep = ep and st = st, OF ax' nn] by simp
    next
      case (Some resp)
      show ?thesis
      proof (cases "isRateLimit resp")
        case False
        then show ?thesis using request_api_error [where axios = axios and ep = ep and st = st, OF ax' nn Some] by simp
      next
        case True
        then show ?thesis using request_rate_limit_throw [where axios = axios and ep = ep and st = st, OF ax' nn Some True] by simp
      qed
    qed
  qed
  then show ?case
    using log_before_request prefix_order.trans by blast
next
  case (Suc r)
  let ?st1 = "before_request st"
  obtain res el where ax: "axios (baseURL @ ep) (calls ?st1) (now ?st1) = (res, el)"
    by (cases "axios (baseURL @ ep) (calls ?st1) (now ?st1)")
  let ?st2 = "after_call (baseURL @ ep) el ?st1"
  have rec: "prefix (log ?st1) (log (snd (request axios ep r st')))"
    if "prefix (log ?st2) (log st')" for st'
  proof -
    have "prefix (log ?st1) (log ?st2)" by simp
    with that Suc [of st'] show ?thesis
      using prefix_order.trans by blast
  qed
  have "prefix (log ?st1) (log (snd (request axios ep (Suc r) st)))"
  proof (cases res)
    case (Resolved resp)
    then show ?thesis using ax by (simp add: request_resolved)
  next
    case (Rejected e)
    note ax' = ax [unfolded Rejected]
    show ?thesis
    proof (cases "isNetworkError e")
      case True
      then show ?thesis
        using request_network_retry [where axios = axios and ep = ep and st = st, OF ax', of "Suc r"] by (simp add: rec)
    next
      case False
      then have nn: "\<not> (isNetworkError e \<and> 0 < Suc r)" by simp
      show ?thesis
      proof (cases "response e")
        case None
        then show ?thesis using request_no_response [where axios = axios and ep = ep and st = st, OF ax' nn] by simp
      next
        case (Some resp)
        show ?thesis
        proof (cases "isRateLimit resp")
          case False
          then show ?thesis using request_api_error [where axios = axios and ep = ep and st = st, OF ax' nn Some] by simp
        next
          case rl: True
          show ?thesis
          proof (cases "0 < Suc r \<and> js_lt (map_option (\<lambda>t. max 0 (t - now ?st2))
                              (map_option (\<lambda>n. n * 1000) (parseInt (x_ratelimit_reset (headers resp)))))
                         3600000")
            case False
            then show ?thesis
              using request_rate_limit_throw [where axios = axios and ep = ep and st = st, OF ax' nn Some rl] by simp
          next
            case True
            then obtain reset where reset: "x_ratelimit_reset (headers resp) = Num reset"
              by (cases "x_ratelimit_reset (headers resp)") (auto simp: parseInt_def js_lt_def)
            with True have w: "max 0 (reset * 1000 - now ?st2) < 3600000"
              by (simp add: parseInt_def js_lt_def)
            show ?thesis
              using request_rate_limit_retry [where axios = axios and ep = ep and st = st, OF ax' nn Some rl reset _ w]
              by (simp add: rec)
          qed
        qed
      qed
    qed
  qed
  then show ?case
    using log_before_request prefix_order.trans by blast
qed

text \<open>One unfolding: the request first checks the rate limit, then calls axios once.\<close>

lemma request_first_call:
  "\<exists>evs. log (snd (request axios ep r st)) =
           log (before_request st) @ Get (baseURL @ ep) (now (before_request st)) # evs"
proof -
  let ?st1 = "before_request st"
  obtain res el where ax: "axios (baseURL @ ep) (calls ?st1) (now ?st1) = (res, el)"
    by (cases "axios (baseURL @ ep) (calls ?st1) (now ?st1)")
  let ?st2 = "after_call (baseURL @ ep) el ?st1"
  have rec: "\<exists>evs. log (snd (request axios ep r' st')) = log ?st1 @ Get (baseURL @ ep) (now ?st1) # evs"
    if "prefix (log ?st2) (log st')" for r' st'
  proof -
    have "prefix (log st') (log (snd (request axios ep r' st')))"
      by (rule log_request)
    with that have "prefix (log ?st2) (log (snd (request axios ep r' st')))"
      using prefix_order.trans by blast
    then show ?thesis
      by (auto simp: prefix_def)
  qed
  show ?thesis
  proof (cases res)
    case (Resolved resp)
    then show ?thesis
      using ax by (simp add: request_resolved)
  next
    case (Rejected e)
    note ax' = ax [unfolded Rejected]
    show ?thesis
    proof (cases "isNetworkError e \<and> 0 < r")
      case True
      then show ?thesis
        using request_network_retry [where axios = axios and ep = ep and st = st, OF ax', of r] by (simp add: rec)
    next
      case nn: False
      show ?thesis
      proof (cases "response e")
        case None
        then show ?thesis
          using request_no_response [where axios = axios and ep = ep and st = st, OF ax' nn] by simp
      next
        case (Some resp)
        show ?thesis
        proof (cases "isRateLimit resp")
          case False
          then show ?thesis
            using request_api_error [where axios = axios and ep = ep and st = st, OF ax' nn Some] by simp
        next
          case rl: True
          show ?thesis
          proof (cases "0 < r \<and> js_lt (map_option (\<lambda>t. max 0 (t - now ?st2))
                              (map_option (\<lambda>n. n * 1000) (parseInt (x_ratelimit_reset (headers resp)))))
                         3600000")
            case False
            then show ?thesis
              using request_rate_limit_throw [where axios = axios and ep = ep and st = st, OF ax' nn Some rl] by simp
          next
            case True
            then obtain reset where reset: "x_ratelimit_reset (headers resp) = Num reset"
              by (cases "x_ratelimit_reset (headers resp)") (auto simp: parseInt_def js_lt_def)
            with True have w: "max 0 (reset * 1000 - now ?st2) < 3600000"
              by (simp add: parseInt_def js_lt_def)
            show ?thesis
              using request_rate_limit_retry [where axios = axios and ep = ep and st = st, OF ax' nn Some rl reset _ w] True
              by (simp add: rec)
          qed
        qed
      qed
    qed
  qed
qed

text \<open>
  Claim C4, as the code has it. Before it calls axios, \<open>request\<close> waits exactly when
  the remaining quota is at most 10 and the reset time is more than one second
  ahead and less than one hour ahead: it then sleeps until the reset time plus
  2000 ms and sets the remaining quota to 5000. In every other state, the state
  the constructor leaves among them, nothing changes before the call. The call
  of axios follows the check directly; with a remaining quota of 5 and a reset
  time 10 seconds ahead it is made at the reset time plus 2000 ms.
\<close>

theorem before_request_waits_iff:
  "(rateLimitRemaining st = Some rem \<and> rem \<le> 10 \<and> rateLimitReset st = Some reset \<and>
      now st + 1000 < reset \<and> reset < now st + 3600000 \<longrightarrow>
      before_request st = st\<lparr>now := reset + 2000, rateLimitRemaining := Some 5000,
                               log := log st @ [QuotaWait (reset - now st + 2000)]\<rparr>) \<and>
   (\<not> (js_le (rateLimitRemaining st) 10 \<and> js_gt (rateLimitReset st) (now st + 1000) \<and>
        js_lt (rateLimitReset st) (now st + 3600000)) \<longrightarrow>
      before_request st = st) \<and>
   before_request ((new_GitHubAPI t0)\<lparr>now := t\<rparr>) = (new_GitHubAPI t0)\<lparr>now := t\<rparr> \<and>
   (\<exists>evs. log (snd (request axios endpoint retries st)) =
           log (before_request st) @ Get (baseURL @ endpoint) (now (before_request st)) # evs) \<and>
   (rateLimitRemaining st = Some 5 \<and> rateLimitReset st = Some (now st + 10000) \<longrightarrow>
      (\<exists>evs. log (snd (request axios endpoint retries st)) =
              log st @ QuotaWait 12000 # Get (baseURL @ endpoint) (now st + 10000 + 2000) # evs))"
proof -
  have a: "rateLimitRemaining st = Some rem \<and> rem \<le> 10 \<and> rateLimitReset st = Some reset \<and>
      now st + 1000 < reset \<and> reset < now st + 3600000 \<longrightarrow>
      before_request st = st\<lparr>now := reset + 2000, rateLimitRemaining := Some 5000,
                               log := log st @ [QuotaWait (reset - now st + 2000)]\<rparr>"
    using before_request_wait by blast
  have b: "\<not> (js_le (rateLimitRemaining st) 10 \<and> js_gt (rateLimitReset st) (now st + 1000) \<and>
        js_lt (rateLimitReset st) (now st + 3600000)) \<longrightarrow> before_request st = st"
    by (auto simp: before_request_def hasValidRateLimitInfo_def js_le_def js_gt_def js_lt_def
          Let_def split: option.splits)
  have c: "before_request ((new_GitHubAPI t0)\<lparr>now := t\<rparr>) = (new_GitHubAPI t0)\<lparr>now := t\<rparr>"
    by (rule before_request_no_wait) (simp add: new_GitHubAPI_def)
  have d: "\<exists>evs. log (snd (request axios endpoint retries st)) =
           log (before_request st) @ Get (baseURL @ endpoint) (now (before_request st)) # evs"
    by (rule request_first_call)
  have e: "rateLimitRemaining st = Some 5 \<and> rateLimitReset st = Some (now st + 10000) \<longrightarrow>
      (\<exists>evs. log (snd (request axios endpoint retries st)) =
              log st @ QuotaWait 12000 # Get (baseURL @ endpoint) (now st + 10000 + 2000) # evs)"
  proof
    assume h: "rateLimitRemaining st = Some 5 \<and> rateLimitReset st = Some (now st + 10000)"
    then have "before_request st = st\<lparr>now := now st + 10000 + 2000, rateLimitRemaining := Some 5000,
                               log := log st @ [QuotaWait (now st + 10000 - now st + 2000)]\<rparr>"
      by (intro before_request_wait [where rem = 5]) simp_all
    with d show "\<exists>evs. log (snd (request axios endpoint retries st)) =
              log st @ QuotaWait 12000 # Get (baseURL @ endpoint) (now st + 10000 + 2000) # evs"
      by simp
  qed
  from a b c d e show ?thesis by blast
qed

theorem before_request_waits_iff_witness:
  "rateLimitRemaining example_api_state = Some 5 \<and>
   rateLimitReset example_api_state = Some (now example_api_state + 10000) \<and>
   before_request example_api_state =
     example_api_state\<lparr>now := 1700000012000, rateLimitRemaining := Some 5000,
                        log := [QuotaWait 12000]\<rparr> \<and>
   \<not> js_le (rateLimitRemaining (example_api_state\<lparr>rateLimitRemaining := Some 11\<rparr>)) 10 \<and>
   before_request (example_api_state\<lparr>rateLimitRemaining := Some 11\<rparr>) =
     example_api_state\<lparr>rateLimitRemaining := Some 11\<rparr> \<and>
   (\<exists>evs. log (snd (request (failing_axios connection_reset) ''/users/octocat'' 3 example_api_state)) =
           QuotaWait 12000 # Get ''https://api.github.com/users/octocat'' 1700000012000 # evs)"
proof -
  note T = before_request_waits_iff [where st = example_api_state and rem = 5
          and reset = 1700000010000 and axios = "failing_axios connection_reset"
          and endpoint = "''/users/octocat''" and retries = 3
          and t0 = 1700000000000 and t = 1700000000000]
  note U = before_request_waits_iff [where st = "example_api_state\<lparr>rateLimitRemaining := Some 11\<rparr>"
          and rem = 11 and reset = 1700000010000 and axios = "failing_axios connection_reset"
          and endpoint = "''/users/octocat''" and retries = 3
          and t0 = 1700000000000 and t = 1700000000000]
  have h: "rateLimitRemaining example_api_state = Some 5"
    "rateLimitReset example_api_state = Some (now example_api_state + 10000)"
    "now example_api_state = 1700000000000" "log example_api_state = []"
    by (simp_all add: example_api_state_def)
  have w: "before_request example_api_state =
     example_api_state\<lparr>now := 1700000012000, rateLimitRemaining := Some 5000,
                        log := [QuotaWait 12000]\<rparr>"
    using T [THEN conjunct1] h by simp
  have n: "\<not> js_le (rateLimitRemaining (example_api_state\<lparr>rateLimitRemaining := Some 11\<rparr>)) 10"
    by (simp add: js_le_def)
  have u: "before_request (example_api_state\<lparr>rateLimitRemaining := Some 11\<rparr>) =
     example_api_state\<lparr>rateLimitRemaining := Some 11\<rparr>"
    using U [THEN conjunct2, THEN conjunct1] n by blast
  have r: "\<exists>evs. log (snd (request (failing_axios connection_reset) ''/users/octocat'' 3 example_api_state)) =
           QuotaWait 12000 # Get ''https://api.github.com/users/octocat'' 1700000012000 # evs"
    using T [THEN conjunct2, THEN conjunct2, THEN conjunct2, THEN conjunct2] h
    by (simp add: baseURL_def)
  from h(1,2) w n u r show ?thesis by blast
qed

text \<open>
  The claim as worded asks for a wait whenever the reset time is strictly in the
  future. With a remaining quota of 5 and a reset time half a second ahead the
  request goes out without any wait.
\<close>

theorem before_request_one_second_margin:
  "js_le (rateLimitRemaining (example_api_state\<lparr>rateLimitReset := Some 1700000000500\<rparr>)) 10 \<and>
   now (example_api_state\<lparr>rateLimitReset := Some 1700000000500\<rparr>) < 1700000000500 \<and>
   1700000000500 < now (example_api_state\<lparr>rateLimitReset := Some 1700000000500\<rparr>) + 3600000 \<and>
   before_request (example_api_state\<lparr>rateLimitReset := Some 1700000000500\<rparr>) =
     example_api_state\<lparr>rateLimitReset := Some 1700000000500\<rparr>"
  by (simp add: example_api_state_def before_request_def hasValidRateLimitInfo_def
        js_le_def js_gt_def)

subsection \<open>Rate-limit errors\<close>

lemma isRateLimit_iff:
  "isRateLimit resp \<longleftrightarrow>
     status resp = 403 \<and> (\<exists>n\<le>0. x_ratelimit_remaining (headers resp) = Num n)"
  by (cases "x_ratelimit_remaining (headers resp)")
     (auto simp: isRateLimit_def parseInt_def js_le_def)

lemma prefix_snoc_same:
  "prefix (xs @ [a]) zs \<Longrightarrow> prefix (xs @ [b]) zs \<Longrightarrow> a = b"
  by (auto simp: prefix_def)

lemma not_prefix_snoc_self: "\<not> prefix (xs @ [a]) xs"
  by (auto simp: prefix_def)

text \<open>What tells the handling of a rate-limit error from every other outcome of a failed call.\<close>

lemma rate_limit_handling_iff:
  assumes ax: "axios (baseURL @ ep) (calls (before_request st)) (now (before_request st)) = (Rejected e, el)"
  shows "((\<exists>resp. response e = Some resp \<and> isRateLimit resp) \<and> \<not> (isNetworkError e \<and> 0 < r)) \<longleftrightarrow>
         ((\<exists>t. request axios ep r st =
                 (Inl (RateLimitExceeded t), after_call (baseURL @ ep) el (before_request st))) \<or>
          (\<exists>w. prefix (log (after_call (baseURL @ ep) el (before_request st)) @ [ResetWait w])
                  (log (snd (request axios ep r st)))))"
proof -
  let ?st2 = "after_call (baseURL @ ep) el (before_request st)"
  let ?R = "request axios ep r st"
  let ?rhs = "(\<exists>t. ?R = (Inl (RateLimitExceeded t), ?st2)) \<or>
              (\<exists>w. prefix (log ?st2 @ [ResetWait w]) (log (snd ?R)))"
  show ?thesis
  proof (cases "isNetworkError e \<and> 0 < r")
    case True
    let ?st3 = "sleep Backoff (backoffDelay r) ?st2"
    have R: "?R = request axios ep (r - 1) ?st3"
      using request_network_retry [where axios = axios and ep = ep and st = st, OF ax] True by blast
    have p: "prefix (log ?st2 @ [Backoff (backoffDelay r)]) (log (snd ?R))"
      using log_request [of ?st3 axios ep "r - 1"] by (simp add: R)
    have "\<not> ?rhs"
    proof
      assume ?rhs
      then show False
      proof
        assume "\<exists>t. ?R = (Inl (RateLimitExceeded t), ?st2)"
        then have "snd ?R = ?st2" by auto
        with p show False by (simp only: not_prefix_snoc_self)
      next
        assume "\<exists>w. prefix (log ?st2 @ [ResetWait w]) (log (snd ?R))"
        then obtain w where "prefix (log ?st2 @ [ResetWait w]) (log (snd ?R))" ..
        from prefix_snoc_same [OF this p] show False by simp
      qed
    qed
    with True show ?thesis by blast
  next
    case nn: False
    show ?thesis
    proof (cases "response e")
      case None
      have "?R = ((if isNetworkError e then Inl (NetworkErrorAfterRetries (first_some (code e) (message e)))
                   else Inl (Rethrown e)), ?st2)"
        using request_no_response [where axios = axios and ep = ep and st = st, OF ax nn None] .
      then have "\<not> ?rhs"
        by (auto simp: not_prefix_snoc_self split: if_splits)
      with None show ?thesis by simp
    next
      case (Some resp)
      show ?thesis
      proof (cases "isRateLimit resp")
        case False
        have "?R = (Inl (ApiError (status resp) (first_some (data resp) (message e))), ?st2)"
          using request_api_error [where axios = axios and ep = ep and st = st, OF ax nn Some False] .
        then have "\<not> ?rhs"
          by (auto simp: not_prefix_snoc_self)
        with Some False show ?thesis by simp
      next
        case rl: True
        have ?rhs
        proof (cases "0 < r \<and> js_lt (map_option (\<lambda>t. max 0 (t - now ?st2))
                              (map_option (\<lambda>n. n * 1000) (parseInt (x_ratelimit_reset (headers resp)))))
                         3600000")
          case False
          then show ?thesis
            using request_rate_limit_throw [where axios = axios and ep = ep and st = st, OF ax nn Some rl]
            by blast
        next
          case True
          then obtain reset where reset: "x_ratelimit_reset (headers resp) = Num reset"
            by (cases "x_ratelimit_reset (headers resp)") (auto simp: parseInt_def js_lt_def)
          with True have w: "max 0 (reset * 1000 - now ?st2) < 3600000"
            by (simp add: parseInt_def js_lt_def)
          let ?st3 = "(sleep ResetWait (max 0 (reset * 1000 - now ?st2) + 2000) ?st2)
                        \<lparr>rateLimitRemaining := Some 5000\<rparr>"
          have R: "?R = request axios ep (r - 1) ?st3"
            using request_rate_limit_retry [where axios = axios and ep = ep and st = st,
                OF ax nn Some rl reset _ w] True by blast
          have "prefix (log ?st2 @ [ResetWait (max 0 (reset * 1000 - now ?st2) + 2000)]) (log (snd ?R))"
            using log_request [of ?st3 axios ep "r - 1"] by (simp add: R)
          then show ?thesis by blast
        qed
        with Some rl nn show ?thesis by blast
      qed
    qed
  qed
qed

text \<open>
  Claim C3, as the code has it. A call that axios rejects is handled as a
  rate-limit error, by the wait for the reset or by the rate-limit error thrown
  for this call, exactly when the error has a response with status 403 whose
  remaining-quota header reads as a number not above zero, and the error is not
  retried as a network error (a network error with a retry left). Such an error
  is retried, after a wait until the reset time plus 2000 ms and with the
  remaining quota set to 5000, while a retry is left and the wait is under one
  hour; otherwise the rate-limit error is thrown. Of the errors that are not
  retried as network errors, every other response, one with status 429 among
  them, is thrown as an API error at once, and an error without a response is
  thrown as it is, or as a network error. A network error with a retry left is
  retried after its backoff, whatever its response.
\<close>

theorem request_rate_limit_403:
  assumes "axios (baseURL @ ep) (calls (before_request st)) (now (before_request st)) = (Rejected e, el)"
  shows "(((\<exists>resp. response e = Some resp \<and> status resp = 403 \<and>
              (\<exists>n\<le>0. x_ratelimit_remaining (headers resp) = Num n)) \<and>
           \<not> (isNetworkError e \<and> 0 < r)) \<longleftrightarrow>
          ((\<exists>t. request axios ep r st =
                  (Inl (RateLimitExceeded t), after_call (baseURL @ ep) el (before_request st))) \<or>
           (\<exists>w. prefix (log (after_call (baseURL @ ep) el (before_request st)) @ [ResetWait w])
                   (log (snd (request axios ep r st)))))) \<and>
         (\<forall>resp. isRateLimit resp \<longleftrightarrow>
            status resp = 403 \<and> (\<exists>n\<le>0. x_ratelimit_remaining (headers resp) = Num n)) \<and>
         (\<forall>resp reset.
            \<not> isNetworkError e \<and> response e = Some resp \<and> isRateLimit resp \<and> 0 < r \<and>
            x_ratelimit_reset (headers resp) = Num reset \<and>
            max 0 (reset * 1000 - now (after_call (baseURL @ ep) el (before_request st))) < 3600000 \<longrightarrow>
              request axios ep r st =
                request axios ep (r - 1)
                  ((sleep ResetWait
                      (max 0 (reset * 1000 - now (after_call (baseURL @ ep) el (before_request st))) + 2000)
                      (after_call (baseURL @ ep) el (before_request st)))
                    \<lparr>rateLimitRemaining := Some 5000\<rparr>)) \<and>
         (\<forall>resp.
            \<not> (isNetworkError e \<and> 0 < r) \<and> response e = Some resp \<and> isRateLimit resp \<and>
            (r = 0 \<or>
             (\<forall>reset. x_ratelimit_reset (headers resp) = Num reset \<longrightarrow>
                3600000 \<le> reset * 1000 - now (after_call (baseURL @ ep) el (before_request st)))) \<longrightarrow>
              request axios ep r st =
                (Inl (RateLimitExceeded
                        (map_option (\<lambda>n. n * 1000) (parseInt (x_ratelimit_reset (headers resp))))),
                 after_call (baseURL @ ep) el (before_request st))) \<and>
         (\<forall>resp.
            \<not> (isNetworkError e \<and> 0 < r) \<and> response e = Some resp \<and> \<not> isRateLimit resp \<longrightarrow>
              request axios ep r st =
                (Inl (ApiError (status resp) (first_some (data resp) (message e))),
                 after_call (baseURL @ ep) el (before_request st))) \<and>
         (\<not> (isNetworkError e \<and> 0 < r) \<and> response e = None \<longrightarrow>
            request axios ep r st =
              ((if isNetworkError e
                then Inl (NetworkErrorAfterRetries (first_some (code e) (message e)))
                else Inl (Rethrown e)),
               after_call (baseURL @ ep) el (before_request st))) \<and>
         (isNetworkError e \<and> 0 < r \<longrightarrow>
            request axios ep r st =
              request axios ep (r - 1)
                (sleep Backoff (backoffDelay r) (after_call (baseURL @ ep) el (before_request st))))"
proof -
  let ?st2 = "after_call (baseURL @ ep) el (before_request st)"
  note ax = assms
  have i: "((\<exists>resp. response e = Some resp \<and> status resp = 403 \<and>
              (\<exists>n\<le>0. x_ratelimit_remaining (headers resp) = Num n)) \<and>
           \<not> (isNetworkError e \<and> 0 < r)) \<longleftrightarrow>
          ((\<exists>t. request axios ep r st = (Inl (RateLimitExceeded t), ?st2)) \<or>
           (\<exists>w. prefix (log ?st2 @ [ResetWait w]) (log (snd (request axios ep r st)))))"
    using rate_limit_handling_iff [where axios = axios and ep = ep and st = st and r = r, OF ax]
    by (simp only: isRateLimit_iff)
  have a: "\<forall>resp reset.
            \<not> isNetworkError e \<and> response e = Some resp \<and> isRateLimit resp \<and> 0 < r \<and>
            x_ratelimit_reset (headers resp) = Num reset \<and>
            max 0 (reset * 1000 - now ?st2) < 3600000 \<longrightarrow>
              request axios ep r st =
                request axios ep (r - 1)
                  ((sleep ResetWait (max 0 (reset * 1000 - now ?st2) + 2000) ?st2)
                    \<lparr>rateLimitRemaining := Some 5000\<rparr>)"
    using request_rate_limit_retry [where axios = axios and ep = ep and st = st and r = r, OF ax]
    by blast
  have b: "\<forall>resp.
            \<not> (isNetworkError e \<and> 0 < r) \<and> response e = Some resp \<and> isRateLimit resp \<and>
            (r = 0 \<or> (\<forall>reset. x_ratelimit_reset (headers resp) = Num reset \<longrightarrow>
                3600000 \<le> reset * 1000 - now ?st2)) \<longrightarrow>
              request axios ep r st =
                (Inl (RateLimitExceeded
                        (map_option (\<lambda>n. n * 1000) (parseInt (x_ratelimit_reset (headers resp))))),
                 ?st2)"
  proof (intro allI impI)
    fix resp
    assume h: "\<not> (isNetworkError e \<and> 0 < r) \<and> response e = Some resp \<and> isRateLimit resp \<and>
            (r = 0 \<or> (\<forall>reset. x_ratelimit_reset (headers resp) = Num reset \<longrightarrow>
                3600000 \<le> reset * 1000 - now ?st2))"
    then have "\<not> (0 < r \<and> js_lt (map_option (\<lambda>t. max 0 (t - now ?st2))
                              (map_option (\<lambda>n. n * 1000) (parseInt (x_ratelimit_reset (headers resp)))))
                         3600000)"
      by (cases "x_ratelimit_reset (headers resp)") (auto simp: parseInt_def js_lt_def)
    with h show "request axios ep r st =
              (Inl (RateLimitExceeded
                      (map_option (\<lambda>n. n * 1000) (parseInt (x_ratelimit_reset (headers resp))))),
               ?st2)"
      using request_rate_limit_throw [where axios = axios and ep = ep and st = st and r = r, OF ax]
      by blast
  qed
  have c: "\<forall>resp.
            \<not> (isNetworkError e \<and> 0 < r) \<and> response e = Some resp \<and> \<not> isRateLimit resp \<longrightarrow>
              request axios ep r st =
                (Inl (ApiError (status resp) (first_some (data resp) (message e))), ?st2)"
    using request_api_error [where axios = axios and ep = ep and st = st and r = r, OF ax]
    by blast
  have d: "\<not> (isNetworkError e \<and> 0 < r) \<and> response e = None \<longrightarrow>
            request axios ep r st =
              ((if isNetworkError e
                then Inl (NetworkErrorAfterRetries (first_some (code e) (message e)))
                else Inl (Rethrown e)), ?st2)"
    using request_no_response [where axios = axios and ep = ep and st = st and r = r, OF ax]
    by blast
  have n: "isNetworkError e \<and> 0 < r \<longrightarrow>
            request axios ep r st =
              request axios ep (r - 1) (sleep Backoff (backoffDelay r) ?st2)"
    using request_network_retry [where axios = axios and ep = ep and st = st and r = r, OF ax]
    by blast
  have r: "\<forall>resp. isRateLimit resp \<longleftrightarrow>
            status resp = 403 \<and> (\<exists>n\<le>0. x_ratelimit_remaining (headers resp) = Num n)"
    by (simp only: isRateLimit_iff) simp
  from i r a b c d n show ?thesis by (intro conjI)
qed

lemma example_before_new: "before_request (new_GitHubAPI t) = new_GitHubAPI t"
  by (simp add: before_request_def new_GitHubAPI_def js_le_def)

lemma not_network_forbidden: "\<not> isNetworkError forbidden_no_quota"
  by (simp add: isNetworkError_def forbidden_no_quota_def message_includes_def)

lemma not_network_too_many: "\<not> isNetworkError too_many_requests"
  by (simp add: isNetworkError_def too_many_requests_def message_includes_def)

theorem request_rate_limit_403_witness:
  "failing_axios forbidden_no_quota (baseURL @ ''/users/octocat'')
       (calls (before_request (new_GitHubAPI 1700000000000)))
       (now (before_request (new_GitHubAPI 1700000000000))) = (Rejected forbidden_no_quota, 150) \<and>
   \<not> isNetworkError forbidden_no_quota \<and>
   response forbidden_no_quota =
     Some \<lparr>status = 403,
           headers = \<lparr>x_ratelimit_remaining = Num 0,
                      x_ratelimit_reset = Num 1700000060, link = None\<rparr>,
           data = Some ''API rate limit exceeded''\<rparr> \<and>
   isRateLimit \<lparr>status = 403,
                 headers = \<lparr>x_ratelimit_remaining = Num 0,
                            x_ratelimit_reset = Num 1700000060, link = None\<rparr>,
                 data = Some ''API rate limit exceeded''\<rparr> \<and>
   request (failing_axios forbidden_no_quota) ''/users/octocat'' 3 (new_GitHubAPI 1700000000000) =
     request (failing_axios forbidden_no_quota) ''/users/octocat'' 2
       \<lparr>rateLimitRemaining = Some 5000, rateLimitReset = Some 1700003600000,
        now = 1700000062000, calls = 1,
        log = [Get ''https://api.github.com/users/octocat'' 1700000000000, ResetWait 61850]\<rparr> \<and>
   request (failing_axios forbidden_no_quota) ''/users/octocat'' 0 (new_GitHubAPI 1700000000000) =
     (Inl (RateLimitExceeded (Some 1700000060000)),
      \<lparr>rateLimitRemaining = Some 5000, rateLimitReset = Some 1700003600000,
       now = 1700000000150, calls = 1,
       log = [Get ''https://api.github.com/users/octocat'' 1700000000000]\<rparr>) \<and>
   \<not> isRateLimit \<lparr>status = 404,
                   headers = \<lparr>x_ratelimit_remaining = Num 4990,
                              x_ratelimit_reset = Num 1700003600, link = None\<rparr>,
                   data = Some ''Not Found''\<rparr> \<and>
   request (failing_axios not_found) ''/users/ghost'' 3 (new_GitHubAPI 1700000000000) =
     (Inl (ApiError 404 (Some ''Not Found'')),
      \<lparr>rateLimitRemaining = Some 5000, rateLimitReset = Some 1700003600000,
       now = 1700000000150, calls = 1,
       log = [Get ''https://api.github.com/users/ghost'' 1700000000000]\<rparr>) \<and>
   isNetworkError connection_reset \<and> response connection_reset = None \<and>
   request (failing_axios connection_reset) ''/users/octocat'' 0 (new_GitHubAPI 1700000000000) =
     (Inl (NetworkErrorAfterRetries (Some ''ECONNRESET'')),
      \<lparr>rateLimitRemaining = Some 5000, rateLimitReset = Some 1700003600000,
       now = 1700000000150, calls = 1,
       log = [Get ''https://api.github.com/users/octocat'' 1700000000000]\<rparr>) \<and>
   request (failing_axios connection_reset) ''/users/octocat'' 3 (new_GitHubAPI 1700000000000) =
     request (failing_axios connection_reset) ''/users/octocat'' 2
       \<lparr>rateLimitRemaining = Some 5000, rateLimitReset = Some 1700003600000,
        now = 1700000002150, calls = 1,
        log = [Get ''https://api.github.com/users/octocat'' 1700000000000, Backoff 2000]\<rparr> \<and>
   \<not> ((\<exists>t. request (failing_axios too_many_requests) ''/users/octocat'' 3
                 (new_GitHubAPI 1700000000000) =
               (Inl (RateLimitExceeded t),
                after_call (baseURL @ ''/users/octocat'') 150 (new_GitHubAPI 1700000000000))) \<or>
        (\<exists>w. prefix
               (log (after_call (baseURL @ ''/users/octocat'') 150 (new_GitHubAPI 1700000000000)) @
                [ResetWait w])
               (log (snd (request (failing_axios too_many_requests) ''/users/octocat'' 3
                            (new_GitHubAPI 1700000000000))))))"
proof -
  let ?resp = "\<lparr>status = 403,
                 headers = \<lparr>x_ratelimit_remaining = Num 0,
                            x_ratelimit_reset = Num 1700000060, link = None\<rparr>,
                 data = Some ''API rate limit exceeded''\<rparr>"
  have ax: "failing_axios forbidden_no_quota (baseURL @ ''/users/octocat'')
       (calls (before_request (new_GitHubAPI 1700000000000)))
       (now (before_request (new_GitHubAPI 1700000000000))) = (Rejected forbidden_no_quota, 150)"
    by (simp add: failing_axios_def)
  have nn: "\<not> isNetworkError forbidden_no_quota"
    by (rule not_network_forbidden)
  have resp: "response forbidden_no_quota = Some ?resp"
    by (simp add: forbidden_no_quota_def)
  have rl: "isRateLimit ?resp"
    by (simp add: isRateLimit_def parseInt_def js_le_def)
  note T3 = request_rate_limit_403 [where axios = "failing_axios forbidden_no_quota"
      and ep = "''/users/octocat''" and st = "new_GitHubAPI 1700000000000" and r = 3, OF ax]
  note T0 = request_rate_limit_403 [where axios = "failing_axios forbidden_no_quota"
      and ep = "''/users/octocat''" and st = "new_GitHubAPI 1700000000000" and r = 0, OF ax]
  have a: "request (failing_axios forbidden_no_quota) ''/users/octocat'' 3 (new_GitHubAPI 1700000000000) =
     request (failing_axios forbidden_no_quota) ''/users/octocat'' 2
       \<lparr>rateLimitRemaining = Some 5000, rateLimitReset = Some 1700003600000,
        now = 1700000062000, calls = 1,
        log = [Get ''https://api.github.com/users/octocat'' 1700000000000, ResetWait 61850]\<rparr>"
    using T3 [THEN conjunct2, THEN conjunct2, THEN conjunct1, rule_format, of ?resp 1700000060,
        unfolded example_before_new] nn resp rl
    by (simp add: after_call_def sleep_def new_GitHubAPI_def baseURL_def)
  have b: "request (failing_axios forbidden_no_quota) ''/users/octocat'' 0 (new_GitHubAPI 1700000000000) =
     (Inl (RateLimitExceeded (Some 1700000060000)),
      \<lparr>rateLimitRemaining = Some 5000, rateLimitReset = Some 1700003600000,
       now = 1700000000150, calls = 1,
       log = [Get ''https://api.github.com/users/octocat'' 1700000000000]\<rparr>)"
    using T0 [THEN conjunct2, THEN conjunct2, THEN conjunct2, THEN conjunct1, rule_format, of ?resp,
        unfolded example_before_new] resp rl
    by (simp add: after_call_def new_GitHubAPI_def baseURL_def parseInt_def)
  let ?nf = "\<lparr>status = 404,
               headers = \<lparr>x_ratelimit_remaining = Num 4990,
                          x_ratelimit_reset = Num 1700003600, link = None\<rparr>,
               data = Some ''Not Found''\<rparr>"
  have ax4: "failing_axios not_found (baseURL @ ''/users/ghost'')
       (calls (before_request (new_GitHubAPI 1700000000000)))
       (now (before_request (new_GitHubAPI 1700000000000))) = (Rejected not_found, 150)"
    by (simp add: failing_axios_def)
  have nn4: "\<not> isNetworkError not_found"
    by (simp add: isNetworkError_def not_found_def message_includes_def)
  have resp4: "response not_found = Some ?nf"
    by (simp add: not_found_def)
  have nrl: "\<not> isRateLimit ?nf"
    by (simp add: isRateLimit_def)
  note T4 = request_rate_limit_403 [where axios = "failing_axios not_found"
      and ep = "''/users/ghost''" and st = "new_GitHubAPI 1700000000000" and r = 3, OF ax4]
  have c: "request (failing_axios not_found) ''/users/ghost'' 3 (new_GitHubAPI 1700000000000) =
     (Inl (ApiError 404 (Some ''Not Found'')),
      \<lparr>rateLimitRemaining = Some 5000, rateLimitReset = Some 1700003600000,
       now = 1700000000150, calls = 1,
       log = [Get ''https://api.github.com/users/ghost'' 1700000000000]\<rparr>)"
    using T4 [THEN conjunct2, THEN conjunct2, THEN conjunct2, THEN conjunct2, THEN conjunct1,
        rule_format, of ?nf, unfolded example_before_new] nn4 resp4 nrl
    by (simp add: after_call_def new_GitHubAPI_def baseURL_def first_some_def truthy_def
          not_found_def)
  have ax5: "failing_axios connection_reset (baseURL @ ''/users/octocat'')
       (calls (before_request (new_GitHubAPI 1700000000000)))
       (now (before_request (new_GitHubAPI 1700000000000))) = (Rejected connection_reset, 150)"
    by (simp add: failing_axios_def)
  have ne: "isNetworkError connection_reset"
    by (simp add: isNetworkError_def connection_reset_def)
  have resp5: "response connection_reset = None"
    by (simp add: connection_reset_def)
  note T5 = request_rate_limit_403 [where axios = "failing_axios connection_reset"
      and ep = "''/users/octocat''" and st = "new_GitHubAPI 1700000000000" and r = 0, OF ax5]
  have d: "request (failing_axios connection_reset) ''/users/octocat'' 0 (new_GitHubAPI 1700000000000) =
     (Inl (NetworkErrorAfterRetries (Some ''ECONNRESET'')),
      \<lparr>rateLimitRemaining = Some 5000, rateLimitReset = Some 1700003600000,
       now = 1700000000150, calls = 1,
       log = [Get ''https://api.github.com/users/octocat'' 1700000000000]\<rparr>)"
    using T5 [THEN conjunct2, THEN conjunct2, THEN conjunct2, THEN conjunct2, THEN conjunct2,
        THEN conjunct1, unfolded example_before_new] ne resp5
    by (simp add: after_call_def new_GitHubAPI_def baseURL_def first_some_def truthy_def
          connection_reset_def)
  note T6 = request_rate_limit_403 [where axios = "failing_axios connection_reset"
      and ep = "''/users/octocat''" and st = "new_GitHubAPI 1700000000000" and r = 3, OF ax5]
  have f: "request (failing_axios connection_reset) ''/users/octocat'' 3 (new_GitHubAPI 1700000000000) =
     request (failing_axios connection_reset) ''/users/octocat'' 2
       \<lparr>rateLimitRemaining = Some 5000, rateLimitReset = Some 1700003600000,
        now = 1700000002150, calls = 1,
        log = [Get ''https://api.github.com/users/octocat'' 1700000000000, Backoff 2000]\<rparr>"
    using T6 [THEN conjunct2, THEN conjunct2, THEN conjunct2, THEN conjunct2, THEN conjunct2,
        THEN conjunct2, unfolded example_before_new] ne
    by (simp add: after_call_def sleep_def new_GitHubAPI_def baseURL_def backoffDelay_def)
  have ax7: "failing_axios too_many_requests (baseURL @ ''/users/octocat'')
       (calls (before_request (new_GitHubAPI 1700000000000)))
       (now (before_request (new_GitHubAPI 1700000000000))) = (Rejected too_many_requests, 150)"
    by (simp add: failing_axios_def)
  have no403: "\<not> (\<exists>resp. response too_many_requests = Some resp \<and> status resp = 403 \<and>
              (\<exists>n\<le>0. x_ratelimit_remaining (headers resp) = Num n))"
    by (simp add: too_many_requests_def)
  note T7 = request_rate_limit_403 [where axios = "failing_axios too_many_requests"
      and ep = "''/users/octocat''" and st = "new_GitHubAPI 1700000000000" and r = 3, OF ax7]
  have g: "\<not> ((\<exists>t. request (failing_axios too_many_requests) ''/users/octocat'' 3
                 (new_GitHubAPI 1700000000000) =
               (Inl (RateLimitExceeded t),
                after_call (baseURL @ ''/users/octocat'') 150 (new_GitHubAPI 1700000000000))) \<or>
        (\<exists>w. prefix
               (log (after_call (baseURL @ ''/users/octocat'') 150 (new_GitHubAPI 1700000000000)) @
                [ResetWait w])
               (log (snd (request (failing_axios too_many_requests) ''/users/octocat'' 3
                            (new_GitHubAPI 1700000000000))))))"
    using T7 [THEN conjunct1, unfolded example_before_new] no403 by blast
  from ax nn resp rl a b nrl c ne resp5 d f g show ?thesis by (intro conjI)
qed

text \<open>
  The claim as worded counts status 429 with a remaining quota of zero as a
  rate-limit error. The code throws it as an API error after a single call, with
  no wait and no retry, although three retries are left and the reset is one
  minute ahead.
\<close>

theorem request_429_not_rate_limit:
  "response too_many_requests =
     Some \<lparr>status = 429,
           headers = \<lparr>x_ratelimit_remaining = Num 0,
                      x_ratelimit_reset = Num 1700000060, link = None\<rparr>,
           data = Some ''API rate limit exceeded''\<rparr> \<and>
   \<not> isRateLimit \<lparr>status = 429,
                   headers = \<lparr>x_ratelimit_remaining = Num 0,
                              x_ratelimit_reset = Num 1700000060, link = None\<rparr>,
                   data = Some ''API rate limit exceeded''\<rparr> \<and>
   request (failing_axios too_many_requests) ''/users/octocat'' 3 (new_GitHubAPI 1700000000000) =
     (Inl (ApiError 429 (Some ''API rate limit exceeded'')),
      \<lparr>rateLimitRemaining = Some 5000, rateLimitReset = Some 1700003600000,
       now = 1700000000150, calls = 1,
       log = [Get ''https://api.github.com/users/octocat'' 1700000000000]\<rparr>)"
proof -
  have ax: "failing_axios too_many_requests (baseURL @ ''/users/octocat'')
       (calls (before_request (new_GitHubAPI 1700000000000)))
       (now (before_request (new_GitHubAPI 1700000000000))) = (Rejected too_many_requests, 150)"
    by (simp add: failing_axios_def)
  have nn: "\<not> (isNetworkError too_many_requests \<and> 0 < (3::nat))"
    using not_network_too_many by simp
  have resp: "response too_many_requests =
      Some \<lparr>status = 429,
            headers = \<lparr>x_ratelimit_remaining = Num 0,
                       x_ratelimit_reset = Num 1700000060, link = None\<rparr>,
            data = Some ''API rate limit exceeded''\<rparr>"
    by (simp add: too_many_requests_def)
  have nrl: "\<not> isRateLimit \<lparr>status = 429,
            headers = \<lparr>x_ratelimit_remaining = Num 0,
                       x_ratelimit_reset = Num 1700000060, link = None\<rparr>,
            data = Some ''API rate limit exceeded''\<rparr>"
    by (simp add: isRateLimit_def)
  show ?thesis
    using request_api_error [where axios = "failing_axios too_many_requests"
        and ep = "''/users/octocat''" and st = "new_GitHubAPI 1700000000000", OF ax nn resp nrl,
        unfolded example_before_new]
      resp nrl
    by (simp add: after_call_def new_GitHubAPI_def baseURL_def first_some_def
          truthy_def too_many_requests_def)
qed

subsection \<open>Retries after network errors\<close>

lemma backoffs_of_append [simp]: "backoffs_of (xs @ ys) = backoffs_of xs @ backoffs_of ys"
  by (induction xs rule: backoffs_of.induct) simp_all

lemma gets_of_append [simp]: "gets_of (xs @ ys) = gets_of xs @ gets_of ys"
  by (induction xs rule: gets_of.induct) simp_all

lemma backoffs_before_request [simp]:
  "backoffs_of (log (before_request st)) = backoffs_of (log st)"
  using before_request_cases [of st] by auto

lemma gets_before_request [simp]:
  "gets_of (log (before_request st)) = gets_of (log st)"
  using before_request_cases [of st] by auto

lemma backoffDelay_values:
  "backoffDelay 3 = 2000" "backoffDelay 2 = 4000" "backoffDelay 1 = 8000"
  by (simp_all add: backoffDelay_def)

lemma backoffDelay_le: "backoffDelay r \<le> 10000"
proof (cases "r \<le> 3")
  case True
  then show ?thesis by (simp add: backoffDelay_def)
next
  case False
  have "(2000::int) div 2 ^ (r - 3) \<le> 2000"
    using zdiv_mono2 [of 2000 1 "2 ^ (r - 3)"] by simp
  with False show ?thesis by (simp add: backoffDelay_def)
qed

lemma request_always_transient:
  assumes "always_transient axios (baseURL @ ep)"
  shows "(\<exists>detail. fst (request axios ep r st) = Inl (NetworkErrorAfterRetries detail)) \<and>
         backoffs_of (log (snd (request axios ep r st))) =
           backoffs_of (log st) @ map backoffDelay (rev [1..<Suc r]) \<and>
         map fst (gets_of (log (snd (request axios ep r st)))) =
           map fst (gets_of (log st)) @ replicate (Suc r) (baseURL @ ep)"
proof (induction r arbitrary: st)
  case 0
  from assms obtain e el where
    ax: "axios (baseURL @ ep) (calls (before_request st)) (now (before_request st)) = (Rejected e, el)"
    and ne: "isNetworkError e" and nr: "response e = None"
    unfolding always_transient_def by blast
  have nn: "\<not> (isNetworkError e \<and> 0 < (0::nat))" by simp
  show ?case
    using request_no_response [where axios = axios and ep = ep and st = st, OF ax nn nr] ne
    by simp
next
  case (Suc r)
  from assms obtain e el where
    ax: "axios (baseURL @ ep) (calls (before_request st)) (now (before_request st)) = (Rejected e, el)"
    and ne: "isNetworkError e" and nr: "response e = None"
    unfolding always_transient_def by blast
  let ?st3 = "sleep Backoff (backoffDelay (Suc r)) (after_call (baseURL @ ep) el (before_request st))"
  have step: "request axios ep (Suc r) st = request axios ep r ?st3"
    using request_network_retry [where axios = axios and ep = ep and st = st, OF ax ne, of "Suc r"]
    by simp
  have "map fst (gets_of (log st)) @ (baseURL @ ep) # replicate (Suc r) (baseURL @ ep) =
        map fst (gets_of (log st)) @ replicate (Suc (Suc r)) (baseURL @ ep)"
    by simp
  then show ?case
    using Suc [of ?st3] by (simp add: step del: replicate_Suc)
qed

text \<open>
  Claim C5. The delays before the three retries are 2000, 4000 and 8000 ms, and no
  delay exceeds 10000 ms. A network error with a retry left leads to the delay
  and then to the same request with one retry less. On a network that fails
  every call with a transient error, a request with three retries makes four
  calls for the same url, waits 2000, 4000 and 8000 ms between them and then
  throws the network error. An error with a response that is neither a network
  error nor a rate-limit error is thrown as an API error at once, whatever the
  number of retries left. The network errors are those with the code of a
  connection reset, a timeout, a failed lookup or a refused connection, or with a
  message of a socket hang-up or a timeout.
\<close>

theorem request_transient_backoff:
  "backoffDelay 3 = 2000 \<and> backoffDelay 2 = 4000 \<and> backoffDelay 1 = 8000 \<and>
   backoffDelay r \<le> 10000 \<and>
   (axios (baseURL @ ep) (calls (before_request st)) (now (before_request st)) = (Rejected e, el) \<and>
    isNetworkError e \<and> 0 < r \<longrightarrow>
      request axios ep r st =
        request axios ep (r - 1)
          (sleep Backoff (backoffDelay r) (after_call (baseURL @ ep) el (before_request st)))) \<and>
   (always_transient axios (baseURL @ ep) \<longrightarrow>
      (\<exists>detail. fst (request axios ep 3 st) = Inl (NetworkErrorAfterRetries detail)) \<and>
      backoffs_of (log (snd (request axios ep 3 st))) = backoffs_of (log st) @ [2000, 4000, 8000] \<and>
      map fst (gets_of (log (snd (request axios ep 3 st)))) =
        map fst (gets_of (log st)) @ replicate 4 (baseURL @ ep)) \<and>
   (axios (baseURL @ ep) (calls (before_request st)) (now (before_request st)) = (Rejected e, el) \<and>
    \<not> isNetworkError e \<and> response e = Some resp \<and> \<not> isRateLimit resp \<longrightarrow>
      request axios ep r st =
        (Inl (ApiError (status resp) (first_some (data resp) (message e))),
         after_call (baseURL @ ep) el (before_request st))) \<and>
   (code e' = Some ''ECONNRESET'' \<or> code e' = Some ''ETIMEDOUT'' \<or>
    code e' = Some ''ENOTFOUND'' \<or> code e' = Some ''ECONNREFUSED'' \<or>
    message_includes e' ''socket hang up'' \<or> message_includes e' ''timeout'' \<longrightarrow>
      isNetworkError e')"
proof -
  have a: "axios (baseURL @ ep) (calls (before_request st)) (now (before_request st)) = (Rejected e, el) \<and>
    isNetworkError e \<and> 0 < r \<longrightarrow>
      request axios ep r st =
        request axios ep (r - 1)
          (sleep Backoff (backoffDelay r) (after_call (baseURL @ ep) el (before_request st)))"
    using request_network_retry [where axios = axios and ep = ep and st = st] by blast
  have l: "map backoffDelay (rev [1..<Suc 3]) = [2000, 4000, 8000]"
    by (simp add: backoffDelay_def upt_rec)
  have b: "always_transient axios (baseURL @ ep) \<longrightarrow>
      (\<exists>detail. fst (request axios ep 3 st) = Inl (NetworkErrorAfterRetries detail)) \<and>
      backoffs_of (log (snd (request axios ep 3 st))) = backoffs_of (log st) @ [2000, 4000, 8000] \<and>
      map fst (gets_of (log (snd (request axios ep 3 st)))) =
        map fst (gets_of (log st)) @ replicate 4 (baseURL @ ep)"
    using request_always_transient [of axios ep 3 st] l
    by (simp add: numeral_eq_Suc)
  have c: "axios (baseURL @ ep) (calls (before_request st)) (now (before_request st)) = (Rejected e, el) \<and>
    \<not> isNetworkError e \<and> response e = Some resp \<and> \<not> isRateLimit resp \<longrightarrow>
      request axios ep r st =
        (Inl (ApiError (status resp) (first_some (data resp) (message e))),
         after_call (baseURL @ ep) el (before_request st))"
    using request_api_error [where axios = axios and ep = ep and st = st and e = e and r = r]
    by blast
  have d: "code e' = Some ''ECONNRESET'' \<or> code e' = Some ''ETIMEDOUT'' \<or>
    code e' = Some ''ENOTFOUND'' \<or> code e' = Some ''ECONNREFUSED'' \<or>
    message_includes e' ''socket hang up'' \<or> message_includes e' ''timeout'' \<longrightarrow>
      isNetworkError e'"
    by (auto simp: isNetworkError_def)
  from backoffDelay_values backoffDelay_le [of r] a b c d show ?thesis
    by blast
qed

lemma network_connection_reset: "isNetworkError connection_reset"
  by (simp add: isNetworkError_def connection_reset_def)

lemma not_network_not_found: "\<not> isNetworkError not_found"
  by (simp add: isNetworkError_def not_found_def message_includes_def)

theorem request_transient_backoff_witness:
  "failing_axios connection_reset (baseURL @ ''/users/octocat'')
       (calls (before_request (new_GitHubAPI 1700000000000)))
       (now (before_request (new_GitHubAPI 1700000000000))) = (Rejected connection_reset, 150) \<and>
   isNetworkError connection_reset \<and> 0 < (3::nat) \<and>
   request (failing_axios connection_reset) ''/users/octocat'' 3 (new_GitHubAPI 1700000000000) =
     request (failing_axios connection_reset) ''/users/octocat'' 2
       \<lparr>rateLimitRemaining = Some 5000, rateLimitReset = Some 1700003600000,
        now = 1700000002150, calls = 1,
        log = [Get ''https://api.github.com/users/octocat'' 1700000000000, Backoff 2000]\<rparr> \<and>
   always_transient (failing_axios connection_reset) (baseURL @ ''/users/octocat'') \<and>
   fst (request (failing_axios connection_reset) ''/users/octocat'' 3 (new_GitHubAPI 1700000000000)) =
     Inl (NetworkErrorAfterRetries (Some ''ECONNRESET'')) \<and>
   log (snd (request (failing_axios connection_reset) ''/users/octocat'' 3
               (new_GitHubAPI 1700000000000))) =
     [Get ''https://api.github.com/users/octocat'' 1700000000000, Backoff 2000,
      Get ''https://api.github.com/users/octocat'' 1700000002150, Backoff 4000,
      Get ''https://api.github.com/users/octocat'' 1700000006300, Backoff 8000,
      Get ''https://api.github.com/users/octocat'' 1700000014450] \<and>
   backoffs_of (log (snd (request (failing_axios connection_reset) ''/users/octocat'' 3
                            (new_GitHubAPI 1700000000000)))) = [2000, 4000, 8000] \<and>
   (\<exists>resp. failing_axios not_found (baseURL @ ''/users/ghost'')
              (calls (before_request (new_GitHubAPI 1700000000000)))
              (now (before_request (new_GitHubAPI 1700000000000))) = (Rejected not_found, 150) \<and>
           \<not> isNetworkError not_found \<and> response not_found = Some resp \<and> \<not> isRateLimit resp) \<and>
   request (failing_axios not_found) ''/users/ghost'' 3 (new_GitHubAPI 1700000000000) =
     (Inl (ApiError 404 (Some ''Not Found'')),
      \<lparr>rateLimitRemaining = Some 5000, rateLimitReset = Some 1700003600000,
       now = 1700000000150, calls = 1,
       log = [Get ''https://api.github.com/users/ghost'' 1700000000000]\<rparr>)"
proof -
  let ?st = "new_GitHubAPI 1700000000000"
  let ?resp = "\<lparr>status = 404,
                 headers = \<lparr>x_ratelimit_remaining = Num 4990,
                            x_ratelimit_reset = Num 1700003600, link = None\<rparr>,
                 data = Some ''Not Found''\<rparr>"
  note T = request_transient_backoff [where axios = "failing_axios connection_reset"
      and ep = "''/users/octocat''" and st = ?st and r = 3 and e = connection_reset and el = 150]
  note U = request_transient_backoff [where axios = "failing_axios not_found"
      and ep = "''/users/ghost''" and st = ?st and r = 3 and e = not_found and el = 150
      and resp = ?resp]
  have at: "always_transient (failing_axios connection_reset) (baseURL @ ''/users/octocat'')"
    using network_connection_reset
    by (simp add: always_transient_def failing_axios_def connection_reset_def)
  have lg: "log (snd (request (failing_axios connection_reset) ''/users/octocat'' 3 ?st)) =
     [Get ''https://api.github.com/users/octocat'' 1700000000000, Backoff 2000,
      Get ''https://api.github.com/users/octocat'' 1700000002150, Backoff 4000,
      Get ''https://api.github.com/users/octocat'' 1700000006300, Backoff 8000,
      Get ''https://api.github.com/users/octocat'' 1700000014450]"
    and rs: "fst (request (failing_axios connection_reset) ''/users/octocat'' 3 ?st) =
       Inl (NetworkErrorAfterRetries (Some ''ECONNRESET''))"
    by code_simp+
  have bo: "backoffs_of (log (snd (request (failing_axios connection_reset) ''/users/octocat'' 3 ?st))) =
      [2000, 4000, 8000]"
    using T [THEN conjunct2, THEN conjunct2, THEN conjunct2, THEN conjunct2, THEN conjunct2,
             THEN conjunct1, THEN mp, OF at]
    by (simp add: new_GitHubAPI_def)
  have ax: "failing_axios not_found (baseURL @ ''/users/ghost'')
              (calls (before_request ?st)) (now (before_request ?st)) = (Rejected not_found, 150)"
    by (simp add: failing_axios_def)
  have resp: "response not_found = Some ?resp"
    by (simp add: not_found_def)
  have nrl: "\<not> isRateLimit ?resp"
    by (simp add: isRateLimit_def)
  have nf: "request (failing_axios not_found) ''/users/ghost'' 3 ?st =
     (Inl (ApiError 404 (Some ''Not Found'')),
      \<lparr>rateLimitRemaining = Some 5000, rateLimitReset = Some 1700003600000,
       now = 1700000000150, calls = 1,
       log = [Get ''https://api.github.com/users/ghost'' 1700000000000]\<rparr>)"
    using U [THEN conjunct2, THEN conjunct2, THEN conjunct2, THEN conjunct2, THEN conjunct2,
             THEN conjunct2, THEN conjunct1, THEN mp,
             OF conjI [OF ax conjI [OF not_network_not_found conjI [OF resp nrl]]],
             unfolded example_before_new]
    by (simp add: after_call_def new_GitHubAPI_def baseURL_def first_some_def truthy_def not_found_def)
  have axr: "failing_axios connection_reset (baseURL @ ''/users/octocat'')
       (calls (before_request ?st)) (now (before_request ?st)) = (Rejected connection_reset, 150)"
    by (simp add: failing_axios_def)
  have pos: "0 < (3::nat)"
    by simp
  have st: "request (failing_axios connection_reset) ''/users/octocat'' 3 ?st =
     request (failing_axios connection_reset) ''/users/octocat'' 2
       \<lparr>rateLimitRemaining = Some 5000, rateLimitReset = Some 1700003600000,
        now = 1700000002150, calls = 1,
        log = [Get ''https://api.github.com/users/octocat'' 1700000000000, Backoff 2000]\<rparr>"
    using T [THEN conjunct2, THEN conjunct2, THEN conjunct2, THEN conjunct2, THEN conjunct1,
             THEN mp, OF conjI [OF axr conjI [OF network_connection_reset pos]],
             unfolded example_before_new]
    by (simp add: after_call_def sleep_def new_GitHubAPI_def baseURL_def backoffDelay_def)
  from axr network_connection_reset pos st at rs lg bo ax not_network_not_found resp nrl nf
  show ?thesis
    by blast
qed

section \<open>Properties of EmailCollector\<close>

subsection \<open>The contributors pass\<close>

declare contributors_loop.simps [simp del]

lemma loop_done:
  "\<not> (hasMore st \<and> page st \<le> maxPages) \<Longrightarrow> contributors_loop api rn st = st"
  by (subst contributors_loop.simps) auto

lemma loop_returns:
  assumes "hasMore st" "page st < maxPages"
    and "getContributorsWithPagination api (length (fetched st)) (page st) = Returns pg"
  shows "contributors_loop api rn st =
           contributors_loop api rn (after_page api rn pg (st\<lparr>fetched := fetched st @ [page st]\<rparr>))"
  using assms by (subst contributors_loop.simps) simp

lemma loop_ceiling:
  assumes "hasMore st" "page st = maxPages"
    and "getContributorsWithPagination api (length (fetched st)) (page st) = Returns pg"
  shows "contributors_loop api rn st = st\<lparr>fetched := fetched st @ [page st], hasMore := False\<rparr>"
  using assms by (subst contributors_loop.simps) simp

lemma loop_rate_limit:
  assumes "hasMore st" "page st \<le> maxPages"
    and "getContributorsWithPagination api (length (fetched st)) (page st) = Throws msg c"
    and "js_includes msg ''rate limit''"
  shows "contributors_loop api rn st =
           st\<lparr>fetched := fetched st @ [page st],
              consecutiveErrors := consecutiveErrors st + 1, thrown := Some msg\<rparr>"
  using assms by (subst contributors_loop.simps) simp

lemma loop_error:
  assumes "hasMore st" "page st \<le> maxPages"
    and "getContributorsWithPagination api (length (fetched st)) (page st) = Throws msg c"
    and "\<not> js_includes msg ''rate limit''"
  shows "contributors_loop api rn st =
           contributors_loop api rn
             (after_error (st\<lparr>fetched := fetched st @ [page st],
                              consecutiveErrors := consecutiveErrors st + 1\<rparr>))"
  using assms by (subst contributors_loop.simps) simp

lemma next_page_fields:
  "fetched (next_page pg st) = fetched st"
  "thrown (next_page pg st) = thrown st"
  "consecutiveErrors (next_page pg st) = consecutiveErrors st"
  "consecutiveEmptyPages (next_page pg st) = consecutiveEmptyPages st"
  "totalContributorsFetched (next_page pg st) = totalContributorsFetched st"
  "emails (next_page pg st) = emails st"
  "hasMore (next_page pg st) = (hasMore st \<and> consecutiveEmptyPages st < maxConsecutiveEmptyPages)"
  "page (next_page pg st) =
     (if consecutiveEmptyPages st < maxConsecutiveEmptyPages then page st + 1 else page st)"
  by (simp_all add: next_page_def)

lemma count_page_fields:
  "fetched (count_page pg st) = fetched st"
  "thrown (count_page pg st) = thrown st"
  "consecutiveErrors (count_page pg st) = consecutiveErrors st"
  "consecutiveEmptyPages (count_page pg st) =
     (if contributors pg = [] then consecutiveEmptyPages st + 1 else 0)"
  "totalContributorsFetched (count_page pg st) =
     totalContributorsFetched st + length (contributors pg)"
  "emails (count_page pg st) = emails st"
  "hasMore (count_page pg st) = hasMore st"
  "page (count_page pg st) = page st"
  by (simp_all add: count_page_def)

lemma after_page_fields:
  "fetched (after_page api rn pg st) = fetched st"
  "thrown (after_page api rn pg st) = thrown st"
  "consecutiveErrors (after_page api rn pg st) = 0"
  "consecutiveEmptyPages (after_page api rn pg st) =
     (if contributors pg = [] then consecutiveEmptyPages st + 1 else 0)"
  "hasMore (after_page api rn pg st) =
     (hasMore st \<and>
      (if contributors pg = [] then consecutiveEmptyPages st + 1 else 0) < maxConsecutiveEmptyPages)"
  "page (after_page api rn pg st) =
     (if (if contributors pg = [] then consecutiveEmptyPages st + 1 else 0) < maxConsecutiveEmptyPages
      then page st + 1 else page st)"
  "totalContributorsFetched (after_page api rn pg st) =
     totalContributorsFetched st + length (contributors pg)"
  "emails (after_page api rn pg st) = process_page api rn (contributors pg) 0 (emails st)"
  by (simp_all add: after_page_def next_page_fields count_page_fields)

lemma after_error_fields:
  "fetched (after_error st) = fetched st"
  "thrown (after_error st) = thrown st"
  "consecutiveErrors (after_error st) = consecutiveErrors st"
  "consecutiveEmptyPages (after_error st) = consecutiveEmptyPages st"
  "page (after_error st) = page st"
  "hasMore (after_error st) = (hasMore st \<and> consecutiveErrors st < maxConsecutiveErrors)"
  by (auto simp: after_error_def)

lemma loop_final:
  "thrown st = None \<Longrightarrow> hasMore st \<or> may_stop st \<Longrightarrow>
     (thrown (contributors_loop api rn st) = None \<and> may_stop (contributors_loop api rn st)) \<or>
     (\<exists>msg. thrown (contributors_loop api rn st) = Some msg \<and> js_includes msg ''rate limit'')"
proof (induction api rn st rule: contributors_loop.induct)
  case (1 api rn st)
  show ?case
  proof (cases "hasMore st \<and> page st \<le> maxPages")
    case False
    then have "contributors_loop api rn st = st"
      by (rule loop_done)
    moreover have "may_stop st"
      using False 1(4) by (auto simp: may_stop_def)
    ultimately show ?thesis using 1(3) by simp
  next
    case guard: True
    show ?thesis
    proof (cases "getContributorsWithPagination api (length (fetched st)) (page st)")
      case (Returns pg)
      show ?thesis
      proof (cases "page st \<ge> maxPages")
        case True
        with guard have "page st = maxPages" by simp
        with guard Returns have "contributors_loop api rn st =
            st\<lparr>fetched := fetched st @ [page st], hasMore := False\<rparr>"
          by (intro loop_ceiling) simp_all
        then show ?thesis
          using 1(3) True by (simp add: may_stop_def)
      next
        case False
        let ?st' = "after_page api rn pg (st\<lparr>fetched := fetched st @ [page st]\<rparr>)"
        have eq: "contributors_loop api rn st = contributors_loop api rn ?st'"
          using guard False Returns by (intro loop_returns) simp_all
        have t: "thrown ?st' = None"
          using 1(3) by (simp add: after_page_fields)
        have i: "hasMore ?st' \<or> may_stop ?st'"
          using guard by (auto simp: after_page_fields may_stop_def)
        show ?thesis
          using 1(1) [OF guard Returns False t i] by (simp add: eq)
      qed
    next
      case (Throws msg c)
      show ?thesis
      proof (cases "js_includes msg ''rate limit''")
        case True
        with guard Throws have "contributors_loop api rn st =
            st\<lparr>fetched := fetched st @ [page st],
               consecutiveErrors := consecutiveErrors st + 1, thrown := Some msg\<rparr>"
          by (intro loop_rate_limit) simp_all
        then show ?thesis using True by simp
      next
        case False
        let ?st' = "after_error (st\<lparr>fetched := fetched st @ [page st],
                                    consecutiveErrors := consecutiveErrors st + 1\<rparr>)"
        have eq: "contributors_loop api rn st = contributors_loop api rn ?st'"
          using guard False Throws by (intro loop_error) simp_all
        have t: "thrown ?st' = None"
          using 1(3) by (simp add: after_error_fields)
        have i: "hasMore ?st' \<or> may_stop ?st'"
          using guard by (auto simp: after_error_fields may_stop_def)
        show ?thesis
          using 1(2) [OF guard Throws False t i] by (simp add: eq)
      qed
    qed
  qed
qed

lemma fetched_loop: "prefix (fetched st) (fetched (contributors_loop api rn st))"
proof (induction api rn st rule: contributors_loop.induct)
  case (1 api rn st)
  show ?case
  proof (cases "hasMore st \<and> page st \<le> maxPages")
    case False
    then show ?thesis by (simp add: loop_done)
  next
    case guard: True
    show ?thesis
    proof (cases "getContributorsWithPagination api (length (fetched st)) (page st)")
      case (Returns pg)
      show ?thesis
      proof (cases "page st \<ge> maxPages")
        case True
        with guard have "page st = maxPages" by simp
        with guard Returns have "contributors_loop api rn st =
            st\<lparr>fetched := fetched st @ [page st], hasMore := False\<rparr>"
          by (intro loop_ceiling) simp_all
        then show ?thesis by simp
      next
        case False
        let ?st' = "after_page api rn pg (st\<lparr>fetched := fetched st @ [page st]\<rparr>)"
        have eq: "contributors_loop api rn st = contributors_loop api rn ?st'"
          using guard False Returns by (intro loop_returns) simp_all
        have "prefix (fetched st) (fetched ?st')"
          by (simp add: after_page_fields)
        with 1(1) [OF guard Returns False] show ?thesis
          unfolding eq using prefix_order.trans by blast
      qed
    next
      case (Throws msg c)
      show ?thesis
      proof (cases "js_includes msg ''rate limit''")
        case True
        with guard Throws have "contributors_loop api rn st =
            st\<lparr>fetched := fetched st @ [page st],
               consecutiveErrors := consecutiveErrors st + 1, thrown := Some msg\<rparr>"
          by (intro loop_rate_limit) simp_all
        then show ?thesis by simp
      next
        case False
        let ?st' = "after_error (st\<lparr>fetched := fetched st @ [page st],
                                    consecutiveErrors := consecutiveErrors st + 1\<rparr>)"
        have eq: "contributors_loop api rn st = contributors_loop api rn ?st'"
          using guard False Throws by (intro loop_error) simp_all
        have "prefix (fetched st) (fetched ?st')"
          by (simp add: after_error_fields)
        with 1(2) [OF guard Throws False] show ?thesis
          unfolding eq using prefix_order.trans by blast
      qed
    qed
  qed
qed

lemma loop_fetches_page:
  assumes "hasMore st" "page st \<le> maxPages"
  shows "prefix (fetched st @ [page st]) (fetched (contributors_loop api rn st))"
proof (cases "getContributorsWithPagination api (length (fetched st)) (page st)")
  case (Returns pg)
  show ?thesis
  proof (cases "page st \<ge> maxPages")
    case True
    with assms have "page st = maxPages" by simp
    with assms Returns have "contributors_loop api rn st =
        st\<lparr>fetched := fetched st @ [page st], hasMore := False\<rparr>"
      by (intro loop_ceiling) simp_all
    then show ?thesis by simp
  next
    case False
    let ?st' = "after_page api rn pg (st\<lparr>fetched := fetched st @ [page st]\<rparr>)"
    have eq: "contributors_loop api rn st = contributors_loop api rn ?st'"
      using assms False Returns by (intro loop_returns) simp_all
    have "fetched ?st' = fetched st @ [page st]"
      by (simp add: after_page_fields)
    with fetched_loop [of ?st' api rn] show ?thesis
      unfolding eq by simp
  qed
next
  case (Throws msg c)
  show ?thesis
  proof (cases "js_includes msg ''rate limit''")
    case True
    with assms Throws have "contributors_loop api rn st =
        st\<lparr>fetched := fetched st @ [page st],
           consecutiveErrors := consecutiveErrors st + 1, thrown := Some msg\<rparr>"
      by (intro loop_rate_limit) simp_all
    then show ?thesis by simp
  next
    case False
    let ?st' = "after_error (st\<lparr>fetched := fetched st @ [page st],
                                consecutiveErrors := consecutiveErrors st + 1\<rparr>)"
    have eq: "contributors_loop api rn st = contributors_loop api rn ?st'"
      using assms False Throws by (intro loop_error) simp_all
    have "fetched ?st' = fetched st @ [page st]"
      by (simp add: after_error_fields)
    with fetched_loop [of ?st' api rn] show ?thesis
      unfolding eq by simp
  qed
qed

lemma full_page_continues:
  assumes "hasMore st" "page st < maxPages"
    and "getContributorsWithPagination api (length (fetched st)) (page st) = Returns pg"
    and "length (contributors pg) = 100"
  shows "prefix (fetched st @ [page st, page st + 1]) (fetched (contributors_loop api rn st))"
proof -
  let ?st' = "after_page api rn pg (st\<lparr>fetched := fetched st @ [page st]\<rparr>)"
  have eq: "contributors_loop api rn st = contributors_loop api rn ?st'"
    using assms by (intro loop_returns) simp_all
  have ne: "contributors pg \<noteq> []"
    using assms(4) by auto
  have h: "hasMore ?st'" and p: "page ?st' = page st + 1"
    and f: "fetched ?st' = fetched st @ [page st]"
    using assms(1) ne by (simp_all add: after_page_fields maxConsecutiveEmptyPages_def)
  have le: "page ?st' \<le> maxPages"
    using assms(2) p by simp
  have "prefix (fetched ?st' @ [page ?st']) (fetched (contributors_loop api rn ?st'))"
    using h le by (rule loop_fetches_page)
  then show ?thesis
    by (simp only: eq p f append_assoc append_Cons append_Nil)
qed

lemma loop_page_sizes:
  assumes "\<forall>k<5. \<exists>cs. getContributorsWithPagination api k (k + 1) =
                        Returns \<lparr>contributors = cs, hasNextPage = False\<rparr> \<and>
                      length cs = [100, 100, 0, 0, 0] ! k"
  shows "fetched (collectFromContributors api rn) = [1, 2, 3, 4, 5] \<and>
         thrown (collectFromContributors api rn) = None \<and>
         consecutiveEmptyPages (collectFromContributors api rn) = 3"
proof -
  have "\<exists>cs. getContributorsWithPagination api 0 1 =
      Returns \<lparr>contributors = cs, hasNextPage = False\<rparr> \<and> length cs = 100"
    using assms [rule_format, of 0] by (simp add: numeral_2_eq_2 numeral_3_eq_3 eval_nat_numeral)
  then obtain cs0 where p0: "getContributorsWithPagination api 0 1 =
      Returns \<lparr>contributors = cs0, hasNextPage = False\<rparr>" and l0: "length cs0 = 100"
    by blast
  have "\<exists>cs. getContributorsWithPagination api 1 2 =
      Returns \<lparr>contributors = cs, hasNextPage = False\<rparr> \<and> length cs = 100"
    using assms [rule_format, of 1] by (simp add: numeral_2_eq_2 numeral_3_eq_3 eval_nat_numeral)
  then obtain cs1 where p1: "getContributorsWithPagination api 1 2 =
      Returns \<lparr>contributors = cs1, hasNextPage = False\<rparr>" and l1: "length cs1 = 100"
    by blast
  have "\<exists>cs. getContributorsWithPagination api 2 3 =
      Returns \<lparr>contributors = cs, hasNextPage = False\<rparr> \<and> length cs = 0"
    using assms [rule_format, of 2] by (simp add: numeral_2_eq_2 numeral_3_eq_3 eval_nat_numeral)
  then obtain cs2 where p2: "getContributorsWithPagination api 2 3 =
      Returns \<lparr>contributors = cs2, hasNextPage = False\<rparr>" and l2: "length cs2 = 0"
    by blast
  have "\<exists>cs. getContributorsWithPagination api 3 4 =
      Returns \<lparr>contributors = cs, hasNextPage = False\<rparr> \<and> length cs = 0"
    using assms [rule_format, of 3] by (simp add: numeral_2_eq_2 numeral_3_eq_3 eval_nat_numeral)
  then obtain cs3 where p3: "getContributorsWithPagination api 3 4 =
      Returns \<lparr>contributors = cs3, hasNextPage = False\<rparr>" and l3: "length cs3 = 0"
    by blast
  have "\<exists>cs. getContributorsWithPagination api 4 5 =
      Returns \<lparr>contributors = cs, hasNextPage = False\<rparr> \<and> length cs = 0"
    using assms [rule_format, of 4] by (simp add: numeral_2_eq_2 numeral_3_eq_3 eval_nat_numeral)
  then obtain cs4 where p4: "getContributorsWithPagination api 4 5 =
      Returns \<lparr>contributors = cs4, hasNextPage = False\<rparr>" and l4: "length cs4 = 0"
    by blast
  have ne: "cs0 \<noteq> []" "cs1 \<noteq> []" and e: "cs2 = []" "cs3 = []" "cs4 = []"
    using l0 l1 l2 l3 l4 by auto
  define s0 where "s0 = contributors_start"
  define s1 where "s1 = after_page api rn \<lparr>contributors = cs0, hasNextPage = False\<rparr>
                          (s0\<lparr>fetched := fetched s0 @ [page s0]\<rparr>)"
  define s2 where "s2 = after_page api rn \<lparr>contributors = cs1, hasNextPage = False\<rparr>
                          (s1\<lparr>fetched := fetched s1 @ [page s1]\<rparr>)"
  define s3 where "s3 = after_page api rn \<lparr>contributors = cs2, hasNextPage = False\<rparr>
                          (s2\<lparr>fetched := fetched s2 @ [page s2]\<rparr>)"
  define s4 where "s4 = after_page api rn \<lparr>contributors = cs3, hasNextPage = False\<rparr>
                          (s3\<lparr>fetched := fetched s3 @ [page s3]\<rparr>)"
  define s5 where "s5 = after_page api rn \<lparr>contributors = cs4, hasNextPage = False\<rparr>
                          (s4\<lparr>fetched := fetched s4 @ [page s4]\<rparr>)"
  have f0: "hasMore s0" "page s0 = 1" "fetched s0 = []" "consecutiveEmptyPages s0 = 0"
    "thrown s0 = None"
    by (simp_all add: s0_def contributors_start_def)
  have f1: "hasMore s1" "page s1 = 2" "fetched s1 = [1]" "consecutiveEmptyPages s1 = 0"
    "thrown s1 = None"
    using f0 ne by (simp_all add: s1_def after_page_fields maxConsecutiveEmptyPages_def)
  have f2: "hasMore s2" "page s2 = 3" "fetched s2 = [1, 2]" "consecutiveEmptyPages s2 = 0"
    "thrown s2 = None"
    using f1 ne by (simp_all add: s2_def after_page_fields maxConsecutiveEmptyPages_def)
  have f3: "hasMore s3" "page s3 = 4" "fetched s3 = [1, 2, 3]" "consecutiveEmptyPages s3 = 1"
    "thrown s3 = None"
    using f2 e by (simp_all add: s3_def after_page_fields maxConsecutiveEmptyPages_def)
  have f4: "hasMore s4" "page s4 = 5" "fetched s4 = [1, 2, 3, 4]" "consecutiveEmptyPages s4 = 2"
    "thrown s4 = None"
    using f3 e by (simp_all add: s4_def after_page_fields maxConsecutiveEmptyPages_def)
  have f5: "\<not> hasMore s5" "fetched s5 = [1, 2, 3, 4, 5]" "consecutiveEmptyPages s5 = 3"
    "thrown s5 = None"
    using f4 e by (simp_all add: s5_def after_page_fields maxConsecutiveEmptyPages_def)
  have n0: "length (fetched s0) = 0"
    by (simp add: f0)
  have n1: "length (fetched s1) = 1"
    by (simp add: f1)
  have n2: "length (fetched s2) = 2"
    by (simp add: f2)
  have n3: "length (fetched s3) = 3"
    by (simp add: f3)
  have n4: "length (fetched s4) = 4"
    by (simp add: f4)
  have "contributors_loop api rn s0 = contributors_loop api rn s1"
    unfolding s1_def
  proof (rule loop_returns)
    show "hasMore s0" by (rule f0)
    show "page s0 < maxPages" by (simp add: f0 maxPages_def)
    show "getContributorsWithPagination api (length (fetched s0)) (page s0) =
            Returns \<lparr>contributors = cs0, hasNextPage = False\<rparr>"
      by (simp only: n0 f0(2) p0)
  qed
  also have "\<dots> = contributors_loop api rn s2"
    unfolding s2_def
  proof (rule loop_returns)
    show "hasMore s1" by (rule f1)
    show "page s1 < maxPages" by (simp add: f1 maxPages_def)
    show "getContributorsWithPagination api (length (fetched s1)) (page s1) =
            Returns \<lparr>contributors = cs1, hasNextPage = False\<rparr>"
      by (simp only: n1 f1(2) p1)
  qed
  also have "\<dots> = contributors_loop api rn s3"
    unfolding s3_def
  proof (rule loop_returns)
    show "hasMore s2" by (rule f2)
    show "page s2 < maxPages" by (simp add: f2 maxPages_def)
    show "getContributorsWithPagination api (length (fetched s2)) (page s2) =
            Returns \<lparr>contributors = cs2, hasNextPage = False\<rparr>"
      by (simp only: n2 f2(2) p2)
  qed
  also have "\<dots> = contributors_loop api rn s4"
    unfolding s4_def
  proof (rule loop_returns)
    show "hasMore s3" by (rule f3)
    show "page s3 < maxPages" by (simp add: f3 maxPages_def)
    show "getContributorsWithPagination api (length (fetched s3)) (page s3) =
            Returns \<lparr>contributors = cs3, hasNextPage = False\<rparr>"
      by (simp only: n3 f3(2) p3)
  qed
  also have "\<dots> = contributors_loop api rn s5"
    unfolding s5_def
  proof (rule loop_returns)
    show "hasMore s4" by (rule f4)
    show "page s4 < maxPages" by (simp add: f4 maxPages_def)
    show "getContributorsWithPagination api (length (fetched s4)) (page s4) =
            Returns \<lparr>contributors = cs4, hasNextPage = False\<rparr>"
      by (simp only: n4 f4(2) p4)
  qed
  also have "\<dots> = s5"
    using f5 by (intro loop_done) simp
  finally have "collectFromContributors api rn = s5"
    by (simp add: collectFromContributors_def s0_def)
  with f5 show ?thesis by simp
qed

text \<open>
  Claim C1. For a page the client returns below the page limit, the pass goes on
  from the state \<open>after_page\<close>: the count of consecutive empty pages is one more
  after a page without items and zero after any other page, and the pass keeps
  going, with the next page, unless that count has reached 3. After a page of
  exactly 100 items the next page is asked for, whether or not the page came with
  a link to a next page. A pass that returns has stopped with the count of
  consecutive empty pages at 3 or more, or with its page at the limit of 1000, or
  with 3 consecutive errors; the only other end of a pass is the rate-limit error
  it throws. When the first five pages have 100, 100, 0, 0 and 0 items and no link
  to a next page, the pass asks for the pages 1 to 5 and for no other.
\<close>

theorem contributors_pass_stop_conditions:
  "(hasMore st \<and> page st < maxPages \<and>
    getContributorsWithPagination api (length (fetched st)) (page st) = Returns pg \<longrightarrow>
      contributors_loop api rn st =
        contributors_loop api rn (after_page api rn pg (st\<lparr>fetched := fetched st @ [page st]\<rparr>)) \<and>
      consecutiveEmptyPages (after_page api rn pg (st\<lparr>fetched := fetched st @ [page st]\<rparr>)) =
        (if contributors pg = [] then consecutiveEmptyPages st + 1 else 0) \<and>
      hasMore (after_page api rn pg (st\<lparr>fetched := fetched st @ [page st]\<rparr>)) =
        ((if contributors pg = [] then consecutiveEmptyPages st + 1 else 0) < 3) \<and>
      page (after_page api rn pg (st\<lparr>fetched := fetched st @ [page st]\<rparr>)) =
        (if (if contributors pg = [] then consecutiveEmptyPages st + 1 else 0) < 3
         then page st + 1 else page st)) \<and>
   (hasMore st \<and> page st < maxPages \<and>
    getContributorsWithPagination api (length (fetched st)) (page st) = Returns pg \<and>
    length (contributors pg) = 100 \<longrightarrow>
      prefix (fetched st @ [page st, page st + 1]) (fetched (contributors_loop api rn st))) \<and>
   ((thrown (collectFromContributors api rn) = None \<and>
     (consecutiveEmptyPages (collectFromContributors api rn) \<ge> 3 \<or>
      page (collectFromContributors api rn) \<ge> 1000 \<or>
      consecutiveErrors (collectFromContributors api rn) \<ge> 3)) \<or>
    (\<exists>msg. thrown (collectFromContributors api rn) = Some msg \<and> js_includes msg ''rate limit'')) \<and>
   ((\<forall>k<5. \<exists>cs. getContributorsWithPagination api k (k + 1) =
                     Returns \<lparr>contributors = cs, hasNextPage = False\<rparr> \<and>
                   length cs = [100, 100, 0, 0, 0] ! k) \<longrightarrow>
      fetched (collectFromContributors api rn) = [1, 2, 3, 4, 5] \<and>
      thrown (collectFromContributors api rn) = None \<and>
      consecutiveEmptyPages (collectFromContributors api rn) = 3)"
proof -
  have a: "hasMore st \<and> page st < maxPages \<and>
    getContributorsWithPagination api (length (fetched st)) (page st) = Returns pg \<longrightarrow>
      contributors_loop api rn st =
        contributors_loop api rn (after_page api rn pg (st\<lparr>fetched := fetched st @ [page st]\<rparr>)) \<and>
      consecutiveEmptyPages (after_page api rn pg (st\<lparr>fetched := fetched st @ [page st]\<rparr>)) =
        (if contributors pg = [] then consecutiveEmptyPages st + 1 else 0) \<and>
      hasMore (after_page api rn pg (st\<lparr>fetched := fetched st @ [page st]\<rparr>)) =
        ((if contributors pg = [] then consecutiveEmptyPages st + 1 else 0) < 3) \<and>
      page (after_page api rn pg (st\<lparr>fetched := fetched st @ [page st]\<rparr>)) =
        (if (if contributors pg = [] then consecutiveEmptyPages st + 1 else 0) < 3
         then page st + 1 else page st)"
    using loop_returns [of st api pg rn]
    by (simp add: after_page_fields maxConsecutiveEmptyPages_def)
  have b: "hasMore st \<and> page st < maxPages \<and>
    getContributorsWithPagination api (length (fetched st)) (page st) = Returns pg \<and>
    length (contributors pg) = 100 \<longrightarrow>
      prefix (fetched st @ [page st, page st + 1]) (fetched (contributors_loop api rn st))"
    using full_page_continues [of st api pg rn] by blast
  have c: "(thrown (collectFromContributors api rn) = None \<and>
     (consecutiveEmptyPages (collectFromContributors api rn) \<ge> 3 \<or>
      page (collectFromContributors api rn) \<ge> 1000 \<or>
      consecutiveErrors (collectFromContributors api rn) \<ge> 3)) \<or>
    (\<exists>msg. thrown (collectFromContributors api rn) = Some msg \<and> js_includes msg ''rate limit'')"
    using loop_final [of contributors_start api rn]
    by (simp add: collectFromContributors_def contributors_start_def may_stop_def
          maxPages_def maxConsecutiveErrors_def maxConsecutiveEmptyPages_def)
  from a b c loop_page_sizes [of api rn] show ?thesis
    by blast
qed

theorem contributors_pass_stop_conditions_witness:
  "hasMore contributors_start \<and> page contributors_start < maxPages \<and>
   getContributorsWithPagination page_sizes_example 0 1 =
     Returns \<lparr>contributors = replicate 100 \<lparr>login = None, user_email = None, user_name = None\<rparr>,
              hasNextPage = False\<rparr> \<and>
   getContributorsWithPagination page_sizes_example 1 2 =
     Returns \<lparr>contributors = replicate 100 \<lparr>login = None, user_email = None, user_name = None\<rparr>,
              hasNextPage = False\<rparr> \<and>
   getContributorsWithPagination page_sizes_example 2 3 =
     Returns \<lparr>contributors = [], hasNextPage = False\<rparr> \<and>
   getContributorsWithPagination page_sizes_example 3 4 =
     Returns \<lparr>contributors = [], hasNextPage = False\<rparr> \<and>
   getContributorsWithPagination page_sizes_example 4 5 =
     Returns \<lparr>contributors = [], hasNextPage = False\<rparr> \<and>
   prefix [1, 2] (fetched (contributors_loop page_sizes_example ''octo/repo'' contributors_start)) \<and>
   fetched (collectFromContributors page_sizes_example ''octo/repo'') = [1, 2, 3, 4, 5] \<and>
   thrown (collectFromContributors page_sizes_example ''octo/repo'') = None \<and>
   consecutiveEmptyPages (collectFromContributors page_sizes_example ''octo/repo'') = 3"
proof -
  let ?full = "\<lparr>contributors = replicate 100 \<lparr>login = None, user_email = None, user_name = None\<rparr>,
                 hasNextPage = False\<rparr>"
  note T = contributors_pass_stop_conditions [where api = page_sizes_example
      and rn = "''octo/repo''" and st = contributors_start and pg = ?full]
  have p: "getContributorsWithPagination page_sizes_example 0 1 = Returns ?full"
   "getContributorsWithPagination page_sizes_example 1 2 = Returns ?full"
   "getContributorsWithPagination page_sizes_example 2 3 =
     Returns \<lparr>contributors = [], hasNextPage = False\<rparr>"
   "getContributorsWithPagination page_sizes_example 3 4 =
     Returns \<lparr>contributors = [], hasNextPage = False\<rparr>"
   "getContributorsWithPagination page_sizes_example 4 5 =
     Returns \<lparr>contributors = [], hasNextPage = False\<rparr>"
    by (simp_all add: page_sizes_example_def)
  have h: "\<forall>k<5. \<exists>cs. getContributorsWithPagination page_sizes_example k (k + 1) =
                    Returns \<lparr>contributors = cs, hasNextPage = False\<rparr> \<and>
                  length cs = [100, 100, 0, 0, 0] ! k"
  proof (intro allI impI)
    fix k :: nat
    assume "k < 5"
    then consider "k = 0" | "k = 1" | "k = 2" | "k = 3" | "k = 4"
      by linarith
    then show "\<exists>cs. getContributorsWithPagination page_sizes_example k (k + 1) =
                    Returns \<lparr>contributors = cs, hasNextPage = False\<rparr> \<and>
                  length cs = [100, 100, 0, 0, 0] ! k"
      by cases (simp_all add: page_sizes_example_def)
  qed
  have s: "hasMore contributors_start" "page contributors_start < maxPages"
    "length (fetched contributors_start) = 0" "page contributors_start = 1"
    "fetched contributors_start = []"
    by (simp_all add: contributors_start_def maxPages_def)
  have g: "hasMore contributors_start \<and> page contributors_start < maxPages \<and>
      getContributorsWithPagination page_sizes_example (length (fetched contributors_start))
        (page contributors_start) = Returns ?full \<and>
      length (contributors ?full) = 100"
    using s(1,2) p(1) by (simp only: s(3,4)) simp
  have f: "prefix [1, 2] (fetched (contributors_loop page_sizes_example ''octo/repo'' contributors_start))"
    using T [THEN conjunct2, THEN conjunct1, THEN mp, OF g]
    by (simp add: s numeral_2_eq_2)
  from T [THEN conjunct2, THEN conjunct2, THEN conjunct2, THEN mp, OF h] s(1,2) p f
  show ?thesis by blast
qed

subsection \<open>The commits pass and the run\<close>

declare commits_loop.simps [simp del]

lemma commits_after_page_fetched [simp]:
  "c_fetched (commits_after_page rn m cs st) = c_fetched st"
proof -
  have "c_fetched (process_commits rn m cs st) = c_fetched st" for st
    by (induction cs arbitrary: st) simp_all
  then show ?thesis
    by (simp add: commits_after_page_def Let_def)
qed

lemma commits_after_error_fetched [simp]:
  "c_fetched (commits_after_error msg c st) = c_fetched st"
  by (simp add: commits_after_error_def)

lemma c_fetched_loop: "prefix (c_fetched st) (c_fetched (commits_loop api rn m st))"
proof (induction api rn m st rule: commits_loop.induct)
  case (1 api rn m st)
  show ?case
  proof (cases "c_hasMore st \<and> totalCommits st < m")
    case False
    then show ?thesis
      by (subst commits_loop.simps) auto
  next
    case guard: True
    show ?thesis
    proof (cases "getCommits api (length (c_fetched st)) (c_page st)")
      case (Returns commits)
      show ?thesis
      proof (cases "commits = []")
        case True
        then show ?thesis
          using guard Returns by (subst commits_loop.simps) simp
      next
        case False
        have "prefix (c_fetched st)
                (c_fetched (commits_after_page rn m commits (st\<lparr>c_fetched := c_fetched st @ [c_page st]\<rparr>)))"
          by simp
        with 1(1) [OF guard Returns False] have
          "prefix (c_fetched st)
             (c_fetched (commits_loop api rn m
                (commits_after_page rn m commits (st\<lparr>c_fetched := c_fetched st @ [c_page st]\<rparr>))))"
          using prefix_order.trans by blast
        then show ?thesis
          using guard Returns False by (subst commits_loop.simps) simp
      qed
    next
      case (Throws msg c)
      show ?thesis
      proof (cases "js_includes msg ''rate limit''")
        case True
        then show ?thesis
          using guard Throws by (subst commits_loop.simps) simp
      next
        case False
        have "prefix (c_fetched st)
                (c_fetched (commits_after_error msg c
                   (st\<lparr>c_fetched := c_fetched st @ [c_page st],
                       c_consecutiveErrors := c_consecutiveErrors st + 1\<rparr>)))"
          by simp
        with 1(2) [OF guard Throws False] have
          "prefix (c_fetched st)
             (c_fetched (commits_loop api rn m
                (commits_after_error msg c
                   (st\<lparr>c_fetched := c_fetched st @ [c_page st],
                       c_consecutiveErrors := c_consecutiveErrors st + 1\<rparr>))))"
          using prefix_order.trans by blast
        then show ?thesis
          using guard Throws False by (subst commits_loop.simps) simp
      qed
    qed
  qed
qed

lemma commits_loop_fetches_page:
  assumes "c_hasMore st" "totalCommits st < m"
  shows "prefix (c_fetched st @ [c_page st]) (c_fetched (commits_loop api rn m st))"
proof (cases "getCommits api (length (c_fetched st)) (c_page st)")
  case (Returns commits)
  show ?thesis
  proof (cases "commits = []")
    case True
    then show ?thesis
      using assms Returns by (subst commits_loop.simps) simp
  next
    case False
    have "prefix (c_fetched st @ [c_page st])
            (c_fetched (commits_loop api rn m
               (commits_after_page rn m commits (st\<lparr>c_fetched := c_fetched st @ [c_page st]\<rparr>))))"
      using c_fetched_loop [of "commits_after_page rn m commits
          (st\<lparr>c_fetched := c_fetched st @ [c_page st]\<rparr>)" api rn m]
      by simp
    then show ?thesis
      using assms Returns False by (subst commits_loop.simps) simp
  qed
next
  case (Throws msg c)
  show ?thesis
  proof (cases "js_includes msg ''rate limit''")
    case True
    then show ?thesis
      using assms Throws by (subst commits_loop.simps) simp
  next
    case False
    have "prefix (c_fetched st @ [c_page st])
            (c_fetched (commits_loop api rn m
               (commits_after_error msg c
                  (st\<lparr>c_fetched := c_fetched st @ [c_page st],
                      c_consecutiveErrors := c_consecutiveErrors st + 1\<rparr>))))"
      using c_fetched_loop [of "commits_after_error msg c
          (st\<lparr>c_fetched := c_fetched st @ [c_page st],
              c_consecutiveErrors := c_consecutiveErrors st + 1\<rparr>)" api rn m]
      by simp
    then show ?thesis
      using assms Throws False by (subst commits_loop.simps) simp
  qed
qed

lemma maxCommits_of_pos: "0 < maxCommits_of options"
  by (simp add: maxCommits_of_def split: option.splits)

lemma commits_pass_fetches_first_page:
  "prefix [1] (c_fetched (collectFromCommits api rn (maxCommits_of options)))"
  using commits_loop_fetches_page [of commits_start "maxCommits_of options" api rn]
    maxCommits_of_pos [of options]
  by (simp add: collectFromCommits_def commits_start_def)

lemma loop_thrown_source:
  "thrown st = None \<Longrightarrow> thrown (contributors_loop api rn st) = Some msg \<Longrightarrow>
     \<exists>k p c. getContributorsWithPagination api k p = Throws msg c \<and> js_includes msg ''rate limit''"
proof (induction api rn st rule: contributors_loop.induct)
  case (1 api rn st)
  show ?case
  proof (cases "hasMore st \<and> page st \<le> maxPages")
    case False
    then have "contributors_loop api rn st = st"
      by (rule loop_done)
    with 1(3,4) show ?thesis by simp
  next
    case guard: True
    show ?thesis
    proof (cases "getContributorsWithPagination api (length (fetched st)) (page st)")
      case (Returns pg)
      show ?thesis
      proof (cases "page st \<ge> maxPages")
        case True
        with guard have "page st = maxPages" by simp
        with guard Returns have "contributors_loop api rn st =
            st\<lparr>fetched := fetched st @ [page st], hasMore := False\<rparr>"
          by (intro loop_ceiling) simp_all
        with 1(3,4) show ?thesis by simp
      next
        case False
        let ?st' = "after_page api rn pg (st\<lparr>fetched := fetched st @ [page st]\<rparr>)"
        have eq: "contributors_loop api rn st = contributors_loop api rn ?st'"
          using guard False Returns by (intro loop_returns) simp_all
        have t: "thrown ?st' = None"
          using 1(3) by (simp add: after_page_fields)
        show ?thesis
          using 1(1) [OF guard Returns False t] 1(4) by (simp add: eq)
      qed
    next
      case (Throws m c)
      show ?thesis
      proof (cases "js_includes m ''rate limit''")
        case True
        with guard Throws have "contributors_loop api rn st =
            st\<lparr>fetched := fetched st @ [page st],
               consecutiveErrors := consecutiveErrors st + 1, thrown := Some m\<rparr>"
          by (intro loop_rate_limit) simp_all
        with 1(4) have "m = msg" by simp
        with Throws True show ?thesis by blast
      next
        case False
        let ?st' = "after_error (st\<lparr>fetched := fetched st @ [page st],
                                    consecutiveErrors := consecutiveErrors st + 1\<rparr>)"
        have eq: "contributors_loop api rn st = contributors_loop api rn ?st'"
          using guard False Throws by (intro loop_error) simp_all
        have t: "thrown ?st' = None"
          using 1(3) by (simp add: after_error_fields)
        show ?thesis
          using 1(2) [OF guard Throws False t] 1(4) by (simp add: eq)
      qed
    qed
  qed
qed

lemma commits_loop_rate_limit:
  assumes "c_hasMore st" "totalCommits st < m"
    and "getCommits api (length (c_fetched st)) (c_page st) = Throws msg c"
    and "js_includes msg ''rate limit''"
  shows "commits_loop api rn m st =
           st\<lparr>c_fetched := c_fetched st @ [c_page st],
              c_consecutiveErrors := c_consecutiveErrors st + 1, c_thrown := Some msg\<rparr>"
  using assms by (subst commits_loop.simps) simp

lemma process_contributor_getUser_throws:
  "truthy (login u) \<Longrightarrow> getUser api (or_empty (login u)) = Throws msg c \<Longrightarrow>
     process_contributor api rn u = None"
  by (simp add: process_contributor_def)

text \<open>
  Claim C2, as the code has it. A rate-limit error thrown by the fetch of a page,
  of contributors or of commits, ends the pass at once: the pass throws with no
  retry and no further page. An error thrown by the fetch of a profile, a
  rate-limit error among them, stays in the callback of its contributor, who
  yields no address: after a page that was returned the pass goes on, and it
  throws only a rate-limit error of one of its page fetches. The run does not end
  with the error of a pass:
  collectFromRepository catches it, records an error event, takes no address from
  that pass, and goes on. After a rate-limit error of the contributors pass the
  commits pass, unless it is switched off, runs as it would have after a
  successful contributors pass, starting with page 1 of the commits, and its
  addresses make up the result. After a rate-limit error of the commits pass the
  addresses of the contributors pass make up the result.
\<close>

theorem rate_limit_leaves_pass_run_goes_on:
  "(hasMore st \<and> page st \<le> maxPages \<and>
    getContributorsWithPagination api (length (fetched st)) (page st) = Throws msg c \<and>
    js_includes msg ''rate limit'' \<longrightarrow>
      contributors_loop api rn st =
        st\<lparr>fetched := fetched st @ [page st],
           consecutiveErrors := consecutiveErrors st + 1, thrown := Some msg\<rparr>) \<and>
   (c_hasMore cst \<and> totalCommits cst < m \<and>
    getCommits api (length (c_fetched cst)) (c_page cst) = Throws msg c \<and>
    js_includes msg ''rate limit'' \<longrightarrow>
      commits_loop api rn m cst =
        cst\<lparr>c_fetched := c_fetched cst @ [c_page cst],
            c_consecutiveErrors := c_consecutiveErrors cst + 1, c_thrown := Some msg\<rparr>) \<and>
   (truthy (login u) \<and> getUser api (or_empty (login u)) = Throws msg c \<longrightarrow>
      process_contributor api rn u = None) \<and>
   (thrown (collectFromContributors api rn) = Some msg \<longrightarrow>
      (\<exists>k p c'. getContributorsWithPagination api k p = Throws msg c' \<and>
         js_includes msg ''rate limit'')) \<and>
   (parseRepository repoInput = Inr r \<and> includeContributors options \<noteq> Some False \<and>
    thrown (collectFromContributors api (repositoryName_of r)) = Some msg \<longrightarrow>
      (\<exists>res. collectFromRepository api repoInput options = Inr res \<and>
         contributorEmails res = [] \<and>
         prefix [''Error collecting from contributors: '' @ msg] (errorEvents res) \<and>
         (includeCommits options \<noteq> Some False \<longrightarrow>
            commitPages res =
              c_fetched (collectFromCommits api (repositoryName_of r) (maxCommits_of options)) \<and>
            prefix [1] (commitPages res) \<and>
            (c_thrown (collectFromCommits api (repositoryName_of r) (maxCommits_of options)) = None \<longrightarrow>
               commitEmails res =
                 c_emails (collectFromCommits api (repositoryName_of r) (maxCommits_of options)) \<and>
               allEmails res = map snd (set_new [] (commitEmails res)))))) \<and>
   (parseRepository repoInput = Inr r \<and> includeCommits options \<noteq> Some False \<and>
    c_thrown (collectFromCommits api (repositoryName_of r) (maxCommits_of options)) = Some msg \<longrightarrow>
      (\<exists>res. collectFromRepository api repoInput options = Inr res \<and>
         commitEmails res = [] \<and>
         suffix [''Error collecting from commits: '' @ msg] (errorEvents res) \<and>
         allEmails res = map snd (set_all [] (contributorEmails res)) \<and>
         (includeContributors options \<noteq> Some False \<and>
          thrown (collectFromContributors api (repositoryName_of r)) = None \<longrightarrow>
            contributorEmails res = emails (collectFromContributors api (repositoryName_of r))))) \<and>
   (hasMore st \<and> page st < maxPages \<and>
    getContributorsWithPagination api (length (fetched st)) (page st) = Returns pg \<longrightarrow>
      contributors_loop api rn st =
        contributors_loop api rn
          (after_page api rn pg (st\<lparr>fetched := fetched st @ [page st]\<rparr>)) \<and>
      thrown (after_page api rn pg (st\<lparr>fetched := fetched st @ [page st]\<rparr>)) = thrown st)"
proof -
  have a: "hasMore st \<and> page st \<le> maxPages \<and>
    getContributorsWithPagination api (length (fetched st)) (page st) = Throws msg c \<and>
    js_includes msg ''rate limit'' \<longrightarrow>
      contributors_loop api rn st =
        st\<lparr>fetched := fetched st @ [page st],
           consecutiveErrors := consecutiveErrors st + 1, thrown := Some msg\<rparr>"
    using loop_rate_limit [of st api msg c rn] by blast
  have a': "c_hasMore cst \<and> totalCommits cst < m \<and>
    getCommits api (length (c_fetched cst)) (c_page cst) = Throws msg c \<and>
    js_includes msg ''rate limit'' \<longrightarrow>
      commits_loop api rn m cst =
        cst\<lparr>c_fetched := c_fetched cst @ [c_page cst],
            c_consecutiveErrors := c_consecutiveErrors cst + 1, c_thrown := Some msg\<rparr>"
    using commits_loop_rate_limit [of cst m api msg c rn] by blast
  have u: "truthy (login u) \<and> getUser api (or_empty (login u)) = Throws msg c \<longrightarrow>
      process_contributor api rn u = None"
    using process_contributor_getUser_throws [of u api msg c rn] by blast
  have src: "thrown (collectFromContributors api rn) = Some msg \<longrightarrow>
      (\<exists>k p c'. getContributorsWithPagination api k p = Throws msg c' \<and>
         js_includes msg ''rate limit'')"
    using loop_thrown_source [of contributors_start api rn msg]
    by (simp add: collectFromContributors_def contributors_start_def)
  have b: "parseRepository repoInput = Inr r \<and> includeContributors options \<noteq> Some False \<and>
    thrown (collectFromContributors api (repositoryName_of r)) = Some msg \<longrightarrow>
      (\<exists>res. collectFromRepository api repoInput options = Inr res \<and>
         contributorEmails res = [] \<and>
         prefix [''Error collecting from contributors: '' @ msg] (errorEvents res) \<and>
         (includeCommits options \<noteq> Some False \<longrightarrow>
            commitPages res =
              c_fetched (collectFromCommits api (repositoryName_of r) (maxCommits_of options)) \<and>
            prefix [1] (commitPages res) \<and>
            (c_thrown (collectFromCommits api (repositoryName_of r) (maxCommits_of options)) = None \<longrightarrow>
               commitEmails res =
                 c_emails (collectFromCommits api (repositoryName_of r) (maxCommits_of options)) \<and>
               allEmails res = map snd (set_new [] (commitEmails res)))))"
    using commits_pass_fetches_first_page [of api "repositoryName_of r" options]
    by (simp add: collectFromRepository_def Let_def set_all_def)
  have b': "parseRepository repoInput = Inr r \<and> includeCommits options \<noteq> Some False \<and>
    c_thrown (collectFromCommits api (repositoryName_of r) (maxCommits_of options)) = Some msg \<longrightarrow>
      (\<exists>res. collectFromRepository api repoInput options = Inr res \<and>
         commitEmails res = [] \<and>
         suffix [''Error collecting from commits: '' @ msg] (errorEvents res) \<and>
         allEmails res = map snd (set_all [] (contributorEmails res)) \<and>
         (includeContributors options \<noteq> Some False \<and>
          thrown (collectFromContributors api (repositoryName_of r)) = None \<longrightarrow>
            contributorEmails res = emails (collectFromContributors api (repositoryName_of r))))"
    by (simp add: collectFromRepository_def Let_def set_new_def suffix_def)
  have g: "hasMore st \<and> page st < maxPages \<and>
    getContributorsWithPagination api (length (fetched st)) (page st) = Returns pg \<longrightarrow>
      contributors_loop api rn st =
        contributors_loop api rn
          (after_page api rn pg (st\<lparr>fetched := fetched st @ [page st]\<rparr>)) \<and>
      thrown (after_page api rn pg (st\<lparr>fetched := fetched st @ [page st]\<rparr>)) = thrown st"
    using loop_returns [where st = st and api = api and pg = pg and rn = rn]
    by (simp add: after_page_fields)
  from a a' u src b b' g show ?thesis by (intro conjI)
qed

lemma rate_limited_pass:
  "collectFromContributors rate_limited_api ''octo/repo'' =
     contributors_start\<lparr>fetched := [1], consecutiveErrors := 1,
       thrown := Some ''GitHub API rate limit exceeded. Reset at 11/3/2026, 9:00:00 AM. Please wait and try again.''\<rparr>"
  by code_simp

lemma profile_rate_limited_pass:
  "collectFromContributors profile_rate_limited_api ''octo/repo'' =
     \<lparr>emails = [\<lparr>email = ''bob@dev.org'', name = ''Anonymous Contributor'', username = [],
                  repository = Some ''octo/repo''\<rparr>],
      page = 4, hasMore = False, totalContributorsFetched = 2, consecutiveErrors = 0,
      consecutiveEmptyPages = 3, fetched = [1, 2, 3, 4], thrown = None\<rparr>"
  by code_simp

lemma profile_rate_limited_commits:
  "collectFromCommits profile_rate_limited_api ''octo/repo'' (maxCommits_of default_options) =
     commits_start\<lparr>c_fetched := [1], c_consecutiveErrors := 1,
       c_thrown := Some ''GitHub API rate limit exceeded. Reset at 11/3/2026, 9:00:00 AM. Please wait and try again.''\<rparr>"
  by code_simp

theorem rate_limit_leaves_pass_run_goes_on_witness:
  "hasMore contributors_start \<and> page contributors_start \<le> maxPages \<and>
   getContributorsWithPagination rate_limited_api (length (fetched contributors_start))
       (page contributors_start) =
     Throws ''GitHub API rate limit exceeded. Reset at 11/3/2026, 9:00:00 AM. Please wait and try again.'' None \<and>
   js_includes ''GitHub API rate limit exceeded. Reset at 11/3/2026, 9:00:00 AM. Please wait and try again.''
     ''rate limit'' \<and>
   contributors_loop rate_limited_api ''octo/repo'' contributors_start =
     contributors_start\<lparr>fetched := [1], consecutiveErrors := 1,
       thrown := Some ''GitHub API rate limit exceeded. Reset at 11/3/2026, 9:00:00 AM. Please wait and try again.''\<rparr> \<and>
   parseRepository ''octo/repo'' = Inr \<lparr>owner = Some ''octo'', repo = Some ''repo''\<rparr> \<and>
   includeContributors default_options \<noteq> Some False \<and>
   includeCommits default_options \<noteq> Some False \<and>
   thrown (collectFromContributors rate_limited_api
             (repositoryName_of \<lparr>owner = Some ''octo'', repo = Some ''repo''\<rparr>)) =
     Some ''GitHub API rate limit exceeded. Reset at 11/3/2026, 9:00:00 AM. Please wait and try again.'' \<and>
   (\<exists>res. collectFromRepository rate_limited_api ''octo/repo'' default_options = Inr res \<and>
      contributorEmails res = [] \<and> prefix [1] (commitPages res)) \<and>
   truthy (login \<lparr>login = Some ''jane'', user_email = None, user_name = None\<rparr>) \<and>
   getUser profile_rate_limited_api
       (or_empty (login \<lparr>login = Some ''jane'', user_email = None, user_name = None\<rparr>)) =
     Throws ''GitHub API rate limit exceeded. Reset at 11/3/2026, 9:00:00 AM. Please wait and try again.'' None \<and>
   process_contributor profile_rate_limited_api ''octo/repo''
       \<lparr>login = Some ''jane'', user_email = None, user_name = None\<rparr> = None \<and>
   fetched (collectFromContributors profile_rate_limited_api ''octo/repo'') = [1, 2, 3, 4] \<and>
   thrown (collectFromContributors profile_rate_limited_api ''octo/repo'') = None \<and>
   c_hasMore commits_start \<and> totalCommits commits_start < 1000 \<and>
   getCommits profile_rate_limited_api (length (c_fetched commits_start)) (c_page commits_start) =
     Throws ''GitHub API rate limit exceeded. Reset at 11/3/2026, 9:00:00 AM. Please wait and try again.'' None \<and>
   commits_loop profile_rate_limited_api ''octo/repo'' 1000 commits_start =
     commits_start\<lparr>c_fetched := [1], c_consecutiveErrors := 1,
       c_thrown := Some ''GitHub API rate limit exceeded. Reset at 11/3/2026, 9:00:00 AM. Please wait and try again.''\<rparr> \<and>
   c_thrown (collectFromCommits profile_rate_limited_api
               (repositoryName_of \<lparr>owner = Some ''octo'', repo = Some ''repo''\<rparr>)
               (maxCommits_of default_options)) =
     Some ''GitHub API rate limit exceeded. Reset at 11/3/2026, 9:00:00 AM. Please wait and try again.'' \<and>
   (\<exists>res. collectFromRepository profile_rate_limited_api ''octo/repo'' default_options = Inr res \<and>
      commitEmails res = [] \<and>
      contributorEmails res =
        [\<lparr>email = ''bob@dev.org'', name = ''Anonymous Contributor'', username = [],
          repository = Some ''octo/repo''\<rparr>] \<and>
      allEmails res = map snd (set_all [] (contributorEmails res))) \<and>
   (\<exists>k p c. getContributorsWithPagination rate_limited_api k p =
        Throws ''GitHub API rate limit exceeded. Reset at 11/3/2026, 9:00:00 AM. Please wait and try again.'' c) \<and>
   page contributors_start < maxPages \<and>
   getContributorsWithPagination profile_rate_limited_api (length (fetched contributors_start))
       (page contributors_start) =
     Returns \<lparr>contributors =
                [\<lparr>login = Some ''jane'', user_email = None, user_name = None\<rparr>,
                 \<lparr>login = None, user_email = Some ''Bob@dev.org'', user_name = None\<rparr>],
              hasNextPage = False\<rparr> \<and>
   thrown (after_page profile_rate_limited_api ''octo/repo''
             \<lparr>contributors =
                [\<lparr>login = Some ''jane'', user_email = None, user_name = None\<rparr>,
                 \<lparr>login = None, user_email = Some ''Bob@dev.org'', user_name = None\<rparr>],
              hasNextPage = False\<rparr>
             (contributors_start\<lparr>fetched := fetched contributors_start @
                                              [page contributors_start]\<rparr>)) = None"
proof -
  let ?msg = "''GitHub API rate limit exceeded. Reset at 11/3/2026, 9:00:00 AM. Please wait and try again.''"
  let ?jane = "\<lparr>login = Some ''jane'', user_email = None, user_name = None\<rparr>"
  let ?pg = "\<lparr>contributors =
                [\<lparr>login = Some ''jane'', user_email = None, user_name = None\<rparr>,
                 \<lparr>login = None, user_email = Some ''Bob@dev.org'', user_name = None\<rparr>],
              hasNextPage = False\<rparr>"
  note T = rate_limit_leaves_pass_run_goes_on [where api = rate_limited_api
      and repoInput = "''octo/repo''" and options = default_options
      and r = "\<lparr>owner = Some ''octo'', repo = Some ''repo''\<rparr>"
      and msg = ?msg and st = contributors_start and c = None and rn = "''octo/repo''"]
  note P = rate_limit_leaves_pass_run_goes_on [where api = profile_rate_limited_api
      and repoInput = "''octo/repo''" and options = default_options
      and r = "\<lparr>owner = Some ''octo'', repo = Some ''repo''\<rparr>"
      and msg = ?msg and cst = commits_start and m = 1000 and u = ?jane
      and c = None and rn = "''octo/repo''" and st = contributors_start and pg = ?pg]
  have s: "hasMore contributors_start" "page contributors_start \<le> maxPages"
    by (simp_all add: contributors_start_def maxPages_def)
  have q: "getContributorsWithPagination rate_limited_api (length (fetched contributors_start))
       (page contributors_start) = Throws ?msg None"
    by (simp add: rate_limited_api_def)
  have i: "js_includes ?msg ''rate limit''"
    by code_simp
  have l: "contributors_loop rate_limited_api ''octo/repo'' contributors_start =
     contributors_start\<lparr>fetched := [1], consecutiveErrors := 1, thrown := Some ?msg\<rparr>"
    using T [THEN conjunct1, THEN mp, OF conjI [OF s(1) conjI [OF s(2) conjI [OF q i]]]]
    by (simp add: contributors_start_def)
  have p: "parseRepository ''octo/repo'' = Inr \<lparr>owner = Some ''octo'', repo = Some ''repo''\<rparr>"
    by code_simp
  have n: "repositoryName_of \<lparr>owner = Some ''octo'', repo = Some ''repo''\<rparr> = ''octo/repo''"
    by (simp add: repositoryName_of_def shown_def)
  have o: "includeContributors default_options \<noteq> Some False"
    "includeCommits default_options \<noteq> Some False"
    by (simp_all add: default_options_def)
  have t: "thrown (collectFromContributors rate_limited_api
             (repositoryName_of \<lparr>owner = Some ''octo'', repo = Some ''repo''\<rparr>)) = Some ?msg"
    by (simp add: n rate_limited_pass)
  from T [THEN conjunct2, THEN conjunct2, THEN conjunct2, THEN conjunct2, THEN conjunct1, THEN mp,
      OF conjI [OF p conjI [OF o(1) t]]] o(2)
  have run: "\<exists>res. collectFromRepository rate_limited_api ''octo/repo'' default_options = Inr res \<and>
      contributorEmails res = [] \<and> prefix [1] (commitPages res)"
    by blast
  have ju: "truthy (login ?jane)"
    by (simp add: truthy_def)
  have jg: "getUser profile_rate_limited_api (or_empty (login ?jane)) = Throws ?msg None"
    by (simp add: profile_rate_limited_api_def)
  have jn: "process_contributor profile_rate_limited_api ''octo/repo'' ?jane = None"
    using P [THEN conjunct2, THEN conjunct2, THEN conjunct1, THEN mp, OF conjI [OF ju jg]] .
  have pf: "fetched (collectFromContributors profile_rate_limited_api ''octo/repo'') = [1, 2, 3, 4]"
    and pt: "thrown (collectFromContributors profile_rate_limited_api ''octo/repo'') = None"
    by (simp_all add: profile_rate_limited_pass)
  have cs: "c_hasMore commits_start" "totalCommits commits_start < 1000"
    by (simp_all add: commits_start_def)
  have cq: "getCommits profile_rate_limited_api (length (c_fetched commits_start))
       (c_page commits_start) = Throws ?msg None"
    by (simp add: profile_rate_limited_api_def)
  have cl: "commits_loop profile_rate_limited_api ''octo/repo'' 1000 commits_start =
     commits_start\<lparr>c_fetched := [1], c_consecutiveErrors := 1, c_thrown := Some ?msg\<rparr>"
    using P [THEN conjunct2, THEN conjunct1, THEN mp,
        OF conjI [OF cs(1) conjI [OF cs(2) conjI [OF cq i]]]]
    by (simp add: commits_start_def)
  have ct: "c_thrown (collectFromCommits profile_rate_limited_api
               (repositoryName_of \<lparr>owner = Some ''octo'', repo = Some ''repo''\<rparr>)
               (maxCommits_of default_options)) = Some ?msg"
    by (simp add: n profile_rate_limited_commits)
  have pt': "thrown (collectFromContributors profile_rate_limited_api
               (repositoryName_of \<lparr>owner = Some ''octo'', repo = Some ''repo''\<rparr>)) = None"
    by (simp add: n pt)
  from P [THEN conjunct2, THEN conjunct2, THEN conjunct2, THEN conjunct2, THEN conjunct2,
      THEN conjunct1, THEN mp, OF conjI [OF p conjI [OF o(2) ct]]] o(1) pt'
  have run2: "\<exists>res. collectFromRepository profile_rate_limited_api ''octo/repo'' default_options = Inr res \<and>
      commitEmails res = [] \<and>
      contributorEmails res =
        [\<lparr>email = ''bob@dev.org'', name = ''Anonymous Contributor'', username = [],
          repository = Some ''octo/repo''\<rparr>] \<and>
      allEmails res = map snd (set_all [] (contributorEmails res))"
    by (auto simp: n profile_rate_limited_pass)
  have t': "thrown (collectFromContributors rate_limited_api ''octo/repo'') = Some ?msg"
    by (simp add: rate_limited_pass)
  from T [THEN conjunct2, THEN conjunct2, THEN conjunct2, THEN conjunct1, THEN mp, OF t']
  have src: "\<exists>k p c. getContributorsWithPagination rate_limited_api k p = Throws ?msg c"
    by blast
  have s3: "page contributors_start < maxPages"
    by (simp add: contributors_start_def maxPages_def)
  have pq: "getContributorsWithPagination profile_rate_limited_api
       (length (fetched contributors_start)) (page contributors_start) = Returns ?pg"
    by (simp add: profile_rate_limited_api_def contributors_start_def)
  from P [THEN conjunct2, THEN conjunct2, THEN conjunct2, THEN conjunct2, THEN conjunct2,
      THEN conjunct2, THEN mp, OF conjI [OF s(1) conjI [OF s3 pq]]]
  have on: "thrown (after_page profile_rate_limited_api ''octo/repo'' ?pg
             (contributors_start\<lparr>fetched := fetched contributors_start @
                                              [page contributors_start]\<rparr>)) = None"
    by (simp add: contributors_start_def)
  from s q i l p o t run ju jg jn pf pt cs cq cl ct run2 src s3 pq on show ?thesis
    by (intro conjI)
qed

text \<open>
  The claim as worded says that no commits pass follows a rate-limit error of the
  contributors pass. Here the first page of contributors fails with a rate-limit
  error, and the run still asks for page 1 of the commits and collects the
  address of its author.
\<close>

theorem commits_pass_runs_after_rate_limit:
  "thrown (collectFromContributors rate_limited_api ''octo/repo'') =
     Some ''GitHub API rate limit exceeded. Reset at 11/3/2026, 9:00:00 AM. Please wait and try again.'' \<and>
   collectFromRepository rate_limited_api ''octo/repo'' default_options =
     Inr \<lparr>repositoryName = ''octo/repo'',
          contributorEmails = [],
          commitEmails = [\<lparr>email = ''jane@dev.org'', name = ''Jane'', username = ''jane'',
                           repository = Some ''octo/repo''\<rparr>],
          allEmails = [\<lparr>email = ''jane@dev.org'', name = ''Jane'', username = ''jane'',
                        repository = Some ''octo/repo''\<rparr>],
          validEmails = [\<lparr>email = ''jane@dev.org'', name = ''Jane'', username = ''jane'',
                          repository = Some ''octo/repo''\<rparr>],
          errorEvents = [''Error collecting from contributors: GitHub API rate limit exceeded. Reset at 11/3/2026, 9:00:00 AM. Please wait and try again.''],
          contributorPages = [1],
          commitPages = [1]\<rparr>"
  by code_simp

subsection \<open>Lowered and trimmed text\<close>

declare process_page.simps [simp del]

lemma of_char_lower_char:
  "(of_char (lower_char c) :: nat) =
     (if 65 \<le> (of_char c :: nat) \<and> (of_char c :: nat) \<le> 90 then of_char c + 32 else of_char c)"
  by (simp add: lower_char_def)

lemma is_space_lower_char [simp]: "is_space (lower_char c) = is_space c"
  by (auto simp: is_space_def of_char_lower_char)

lemma lower_char_idem [simp]: "lower_char (lower_char c) = lower_char c"
proof -
  have "(of_char (lower_char (lower_char c)) :: nat) = of_char (lower_char c)"
    by (simp add: of_char_lower_char)
  then show ?thesis
    by (simp only: of_char_eq_iff)
qed

lemma toLowerCase_idem [simp]: "toLowerCase (toLowerCase s) = toLowerCase s"
  by (simp add: toLowerCase_def)

lemma is_space_comp_lower: "is_space \<circ> lower_char = is_space"
  by (rule ext) simp

lemma toLowerCase_trim: "toLowerCase (trim s) = trim (toLowerCase s)"
  by (simp add: toLowerCase_def trim_def rev_map dropWhile_map is_space_comp_lower)

lemma dropWhile_rev_keeps_head:
  assumes "xs \<noteq> []" "\<not> P (hd xs)"
  shows "rev (dropWhile P (rev xs)) \<noteq> [] \<and> hd (rev (dropWhile P (rev xs))) = hd xs"
proof -
  from assms(1) obtain x ys where xs: "xs = x # ys"
    by (cases xs) auto
  with assms(2) have "dropWhile P (rev ys @ [x]) = dropWhile P (rev ys) @ [x]"
    by (simp add: dropWhile_append)
  then show ?thesis
    by (simp add: xs)
qed

lemma trim_idem [simp]: "trim (trim s) = trim s"
proof (cases "dropWhile is_space s = []")
  case True
  have t: "trim s = []"
    unfolding trim_def True by simp
  show ?thesis
    unfolding t by (simp add: trim_def)
next
  case False
  let ?t = "dropWhile is_space s"
  let ?u = "rev (dropWhile is_space (rev ?t))"
  have "\<not> is_space (hd ?t)"
    using False by (rule hd_dropWhile)
  with False have "?u \<noteq> [] \<and> hd ?u = hd ?t"
    by (rule dropWhile_rev_keeps_head)
  with \<open>\<not> is_space (hd ?t)\<close> have "dropWhile is_space ?u = ?u"
    by (simp add: dropWhile_eq_self_iff)
  then show ?thesis
    by (simp add: trim_def)
qed

lemma normal_form_idem [simp]:
  "trim (toLowerCase (trim (toLowerCase s))) = trim (toLowerCase s)"
  by (simp add: toLowerCase_trim)

subsection \<open>The addresses of the passes are lowered and trimmed\<close>

lemma process_contributor_normal:
  "process_contributor api rn c = Some d \<Longrightarrow> trim (toLowerCase (email d)) = email d"
  by (auto simp: process_contributor_def extractEmailFromUser_def Let_def
           split: if_splits reply.splits option.splits)

lemma process_page_normal:
  "\<forall>e\<in>set acc. trim (toLowerCase (email e)) = email e \<Longrightarrow>
   \<forall>e\<in>set (process_page api rn cs i acc). trim (toLowerCase (email e)) = email e"
proof (induction api rn cs i acc rule: process_page.induct)
  case (1 api rn cs i acc)
  show ?case
  proof (cases "i < length cs")
    case False
    then show ?thesis
      using 1(2) by (subst process_page.simps) simp
  next
    case True
    have "\<forall>e\<in>set (acc @ List.map_filter (process_contributor api rn) (take 5 (drop i cs))).
            trim (toLowerCase (email e)) = email e"
      using 1(2) by (auto simp: map_filter_def intro: process_contributor_normal)
    from 1(1) [OF True this] show ?thesis
      using True by (subst process_page.simps) simp
  qed
qed

lemma loop_emails_normal:
  "\<forall>e\<in>set (emails st). trim (toLowerCase (email e)) = email e \<Longrightarrow>
   \<forall>e\<in>set (emails (contributors_loop api rn st)). trim (toLowerCase (email e)) = email e"
proof (induction api rn st rule: contributors_loop.induct)
  case (1 api rn st)
  show ?case
  proof (cases "hasMore st \<and> page st \<le> maxPages")
    case False
    then show ?thesis
      using 1(3) by (subst contributors_loop.simps) auto
  next
    case guard: True
    show ?thesis
    proof (cases "getContributorsWithPagination api (length (fetched st)) (page st)")
      case (Returns pg)
      show ?thesis
      proof (cases "page st \<ge> maxPages")
        case True
        then show ?thesis
          using guard Returns 1(3) by (subst contributors_loop.simps) simp
      next
        case False
        have "\<forall>e\<in>set (emails (after_page api rn pg (st\<lparr>fetched := fetched st @ [page st]\<rparr>))).
                trim (toLowerCase (email e)) = email e"
          using process_page_normal [OF 1(3), of api rn "contributors pg" 0]
          by (simp add: after_page_def next_page_def count_page_def)
        from 1(1) [OF guard Returns False this] show ?thesis
          using guard Returns False by (subst contributors_loop.simps) simp
      qed
    next
      case (Throws msg c)
      show ?thesis
      proof (cases "js_includes msg ''rate limit''")
        case True
        then show ?thesis
          using guard Throws 1(3) by (subst contributors_loop.simps) simp
      next
        case False
        have "\<forall>e\<in>set (emails (after_error (st\<lparr>fetched := fetched st @ [page st],
                                 consecutiveErrors := consecutiveErrors st + 1\<rparr>))).
                trim (toLowerCase (email e)) = email e"
          using 1(3) by (simp add: after_error_def)
        from 1(2) [OF guard Throws False this] show ?thesis
          using guard Throws False by (subst contributors_loop.simps) simp
      qed
    qed
  qed
qed

lemma commit_email_normal:
  "commit_email rn c = Some d \<Longrightarrow> trim (toLowerCase (email d)) = email d"
  by (auto simp: commit_email_def Let_def split: if_splits option.splits)

lemma process_commits_normal:
  "\<forall>e\<in>set (c_emails st). trim (toLowerCase (email e)) = email e \<Longrightarrow>
   \<forall>e\<in>set (c_emails (process_commits rn m cs st)). trim (toLowerCase (email e)) = email e"
proof (induction cs arbitrary: st)
  case Nil
  then show ?case by simp
next
  case (Cons c cs)
  show ?case
  proof (cases "totalCommits st \<ge> m")
    case True
    then show ?thesis using Cons.prems by simp
  next
    case False
    have "\<forall>e\<in>set (c_emails (st\<lparr>c_emails := c_emails st @
                     (case commit_email rn c of Some d \<Rightarrow> [d] | None \<Rightarrow> []),
                 totalCommits := totalCommits st + 1\<rparr>)). trim (toLowerCase (email e)) = email e"
      using Cons.prems by (auto split: option.splits intro: commit_email_normal)
    from Cons.IH [OF this] show ?thesis
      using False by simp
  qed
qed

lemma commits_loop_emails_normal:
  "\<forall>e\<in>set (c_emails st). trim (toLowerCase (email e)) = email e \<Longrightarrow>
   \<forall>e\<in>set (c_emails (commits_loop api rn m st)). trim (toLowerCase (email e)) = email e"
proof (induction api rn m st rule: commits_loop.induct)
  case (1 api rn m st)
  show ?case
  proof (cases "c_hasMore st \<and> totalCommits st < m")
    case False
    then show ?thesis
      using 1(3) by (subst commits_loop.simps) auto
  next
    case guard: True
    show ?thesis
    proof (cases "getCommits api (length (c_fetched st)) (c_page st)")
      case (Returns commits)
      show ?thesis
      proof (cases "commits = []")
        case True
        then show ?thesis
          using guard Returns 1(3) by (subst commits_loop.simps) simp
      next
        case False
        have "\<forall>e\<in>set (c_emails (commits_after_page rn m commits
                               (st\<lparr>c_fetched := c_fetched st @ [c_page st]\<rparr>))).
                trim (toLowerCase (email e)) = email e"
          using process_commits_normal [of "st\<lparr>c_fetched := c_fetched st @ [c_page st]\<rparr>" rn m commits]
            1(3)
          by (simp add: commits_after_page_def Let_def)
        from 1(1) [OF guard Returns False this] show ?thesis
          using guard Returns False by (subst commits_loop.simps) simp
      qed
    next
      case (Throws msg c)
      show ?thesis
      proof (cases "js_includes msg ''rate limit''")
        case True
        then show ?thesis
          using guard Throws 1(3) by (subst commits_loop.simps) simp
      next
        case False
        have "\<forall>e\<in>set (c_emails (commits_after_error msg c
                               (st\<lparr>c_fetched := c_fetched st @ [c_page st],
                                   c_consecutiveErrors := c_consecutiveErrors st + 1\<rparr>))).
                trim (toLowerCase (email e)) = email e"
          using 1(3) by (simp add: commits_after_error_def)
        from 1(2) [OF guard Throws False this] show ?thesis
          using guard Throws False by (subst commits_loop.simps) simp
      qed
    qed
  qed
qed

subsection \<open>The map of the addresses\<close>

lemma keyed_update:
  assumes "distinct (map fst m)" "\<forall>p\<in>set m. email (snd p) = fst p"
  shows "distinct (map fst (AList.update (email e) e m)) \<and>
         (\<forall>p\<in>set (AList.update (email e) e m). email (snd p) = fst p)"
proof -
  have "set (AList.update (email e) e m) \<subseteq> insert (email e, e) (set m)"
    by (induction m) auto
  with assms show ?thesis
    by (auto simp: distinct_update)
qed

lemma keyed_set_all:
  "distinct (map fst m) \<Longrightarrow> \<forall>p\<in>set m. email (snd p) = fst p \<Longrightarrow>
   distinct (map fst (set_all m es)) \<and> (\<forall>p\<in>set (set_all m es). email (snd p) = fst p)"
proof (induction es arbitrary: m)
  case Nil
  then show ?case by (simp add: set_all_def)
next
  case (Cons e es)
  from keyed_update [OF Cons.prems, of e] Cons.IH [of "AList.update (email e) e m"]
  show ?case by (simp add: set_all_def)
qed

lemma keyed_set_new:
  "distinct (map fst m) \<Longrightarrow> \<forall>p\<in>set m. email (snd p) = fst p \<Longrightarrow>
   distinct (map fst (set_new m es)) \<and> (\<forall>p\<in>set (set_new m es). email (snd p) = fst p)"
proof (induction es arbitrary: m)
  case Nil
  then show ?case by (simp add: set_new_def)
next
  case (Cons e es)
  show ?case
  proof (cases "map_of m (email e) \<noteq> None")
    case True
    with Cons.IH [OF Cons.prems] show ?thesis
      by (simp add: set_new_def)
  next
    case False
    with keyed_update [OF Cons.prems, of e] Cons.IH [of "AList.update (email e) e m"]
    show ?thesis by (simp add: set_new_def)
  qed
qed

lemma map_of_set_all:
  "map_of (set_all m es) a =
     (case filter (\<lambda>e. email e = a) es of [] \<Rightarrow> map_of m a | x # xs \<Rightarrow> Some (last (x # xs)))"
proof (induction es arbitrary: m)
  case Nil
  then show ?case by (simp add: set_all_def)
next
  case (Cons e es)
  have "map_of (set_all m (e # es)) a = map_of (set_all (AList.update (email e) e m) es) a"
    by (simp add: set_all_def)
  also have "\<dots> = (case filter (\<lambda>e. email e = a) es of
                      [] \<Rightarrow> map_of (AList.update (email e) e m) a
                    | x # xs \<Rightarrow> Some (last (x # xs)))"
    by (rule Cons.IH)
  also have "\<dots> = (case filter (\<lambda>e. email e = a) (e # es) of
                      [] \<Rightarrow> map_of m a | x # xs \<Rightarrow> Some (last (x # xs)))"
    by (auto simp: update_conv' split: list.splits)
  finally show ?case .
qed

lemma map_of_set_new:
  "map_of (set_new m es) a =
     (case map_of m a of Some v \<Rightarrow> Some v | None \<Rightarrow> find (\<lambda>e. email e = a) es)"
proof (induction es arbitrary: m)
  case Nil
  then show ?case by (simp add: set_new_def split: option.splits)
next
  case (Cons e es)
  show ?case
  proof (cases "map_of m (email e) \<noteq> None")
    case True
    then have "map_of (set_new m (e # es)) a = map_of (set_new m es) a"
      by (simp add: set_new_def)
    with True Cons.IH [of m] show ?thesis
      by (auto split: option.splits)
  next
    case False
    then have "map_of (set_new m (e # es)) a = map_of (set_new (AList.update (email e) e m) es) a"
      by (simp add: set_new_def)
    with False Cons.IH [of "AList.update (email e) e m"] show ?thesis
      by (auto simp: update_conv' split: option.splits)
  qed
qed

lemma find_values:
  "distinct (map fst m) \<Longrightarrow> \<forall>p\<in>set m. email (snd p) = fst p \<Longrightarrow>
   find (\<lambda>e. email e = a) (map snd m) = map_of m a"
  by (induction m) auto

lemma values_subset_all:
  "set (map snd (set_all m es)) \<subseteq> snd ` set m \<union> set es"
proof (induction es arbitrary: m)
  case Nil
  then show ?case by (simp add: set_all_def)
next
  case (Cons e es)
  have "set (AList.update (email e) e m) \<subseteq> insert (email e, e) (set m)"
    by (induction m) auto
  then have "snd ` set (AList.update (email e) e m) \<subseteq> insert e (snd ` set m)"
    by force
  with Cons.IH [of "AList.update (email e) e m"] show ?case
    by (auto simp: set_all_def)
qed

lemma values_subset_new:
  "set (map snd (set_new m es)) \<subseteq> snd ` set m \<union> set es"
proof (induction es arbitrary: m)
  case Nil
  then show ?case by (simp add: set_new_def)
next
  case (Cons e es)
  show ?case
  proof (cases "map_of m (email e) \<noteq> None")
    case True
    then have "set_new m (e # es) = set_new m es"
      by (simp add: set_new_def)
    with Cons.IH [of m] show ?thesis
      by auto
  next
    case False
    then have eq: "set_new m (e # es) = set_new (AList.update (email e) e m) es"
      by (simp add: set_new_def)
    have "set (AList.update (email e) e m) \<subseteq> insert (email e, e) (set m)"
      by (induction m) auto
    then have "snd ` set (AList.update (email e) e m) \<subseteq> insert e (snd ` set m)"
      by force
    with Cons.IH [of "AList.update (email e) e m"] show ?thesis
      unfolding eq by auto
  qed
qed

lemma merge_keyed:
  "distinct (map fst (set_new (set_all [] cs) ks)) \<and>
   (\<forall>p\<in>set (set_new (set_all [] cs) ks). email (snd p) = fst p)"
proof -
  have "distinct (map fst (set_all [] cs)) \<and> (\<forall>p\<in>set (set_all [] cs). email (snd p) = fst p)"
    by (rule keyed_set_all) simp_all
  then show ?thesis
    using keyed_set_new by blast
qed

lemma map_of_merge:
  "map_of (set_new (set_all [] cs) ks) a =
     (if a \<in> email ` set cs then Some (last (filter (\<lambda>e. email e = a) cs))
      else find (\<lambda>e. email e = a) ks)"
proof (cases "filter (\<lambda>e. email e = a) cs")
  case Nil
  then have "a \<notin> email ` set cs"
    by (auto simp: filter_empty_conv)
  with Nil show ?thesis
    by (simp add: map_of_set_new map_of_set_all)
next
  case (Cons x xs)
  then have "x \<in> set (filter (\<lambda>e. email e = a) cs)"
    by simp
  then have "a \<in> email ` set cs"
    by auto
  with Cons show ?thesis
    by (simp add: map_of_set_new map_of_set_all)
qed

lemma merge_distinct: "distinct (map email (map snd (set_new (set_all [] cs) ks)))"
proof -
  have "map (\<lambda>p. email (snd p)) (set_new (set_all [] cs) ks) =
        map fst (set_new (set_all [] cs) ks)"
    by (rule map_cong) (use merge_keyed [of cs ks] in auto)
  then have "map email (map snd (set_new (set_all [] cs) ks)) = map fst (set_new (set_all [] cs) ks)"
    by (simp add: o_def)
  then show ?thesis
    using merge_keyed [of cs ks] by (simp only:)
qed

lemma merge_find:
  "find (\<lambda>e. email e = a) (map snd (set_new (set_all [] cs) ks)) =
     (if a \<in> email ` set cs then Some (last (filter (\<lambda>e. email e = a) cs))
      else find (\<lambda>e. email e = a) ks)"
  using merge_keyed [of cs ks] by (simp add: find_values map_of_merge)

lemma find_address_iff:
  "find (\<lambda>e. email e = a) xs \<noteq> None \<longleftrightarrow> a \<in> email ` set xs"
  by (induction xs) auto

lemma merge_addresses:
  "email ` set (map snd (set_new (set_all [] cs) ks)) = email ` set cs \<union> email ` set ks"
proof -
  have "a \<in> email ` set (map snd (set_new (set_all [] cs) ks)) \<longleftrightarrow>
        a \<in> email ` set cs \<union> email ` set ks" for a
  proof -
    have "a \<in> email ` set (map snd (set_new (set_all [] cs) ks)) \<longleftrightarrow>
          find (\<lambda>e. email e = a) (map snd (set_new (set_all [] cs) ks)) \<noteq> None"
      by (simp only: find_address_iff)
    also have "\<dots> \<longleftrightarrow> a \<in> email ` set cs \<union> email ` set ks"
    proof (cases "a \<in> email ` set cs")
      case True
      then show ?thesis by (simp add: merge_find)
    next
      case False
      then show ?thesis
        using find_address_iff [of a ks] by (simp add: merge_find)
    qed
    finally show ?thesis .
  qed
  then show ?thesis by blast
qed

lemma merge_values: "set (map snd (set_new (set_all [] cs) ks)) \<subseteq> set cs \<union> set ks"
proof -
  have "set (map snd (set_all [] cs)) \<subseteq> set cs"
    using values_subset_all [of "[]" cs] by simp
  with values_subset_new [of "set_all [] cs" ks] show ?thesis
    by auto
qed

text \<open>
  Claim C8. The merged addresses of a run are keyed by address: no two records
  have the same address, every address is its own lowered and trimmed form, so no
  two records have the same address after lowering and trimming either, and the
  addresses are those of the two passes together. For an address of the
  contributors pass the merged record is the record of that pass (the last one
  with the address), also when the commits pass has the address too; a record of
  the commits pass is taken only for an address the contributors pass does not
  have, and then it is the first one with the address.
\<close>

theorem merged_addresses_first_seen_wins:
  "collectFromRepository api repoInput options = Inr res \<longrightarrow>
     distinct (map email (allEmails res)) \<and>
     (\<forall>e\<in>set (allEmails res). trim (toLowerCase (email e)) = email e) \<and>
     distinct (map (\<lambda>e. trim (toLowerCase (email e))) (allEmails res)) \<and>
     email ` set (allEmails res) =
       email ` set (contributorEmails res) \<union> email ` set (commitEmails res) \<and>
     (\<forall>c\<in>set (contributorEmails res).
        find (\<lambda>e. email e = email c) (allEmails res) =
          Some (last (filter (\<lambda>e. email e = email c) (contributorEmails res)))) \<and>
     (\<forall>k\<in>set (commitEmails res).
        email k \<notin> email ` set (contributorEmails res) \<longrightarrow>
          find (\<lambda>e. email e = email k) (allEmails res) =
            find (\<lambda>e. email e = email k) (commitEmails res))"
proof
  assume run: "collectFromRepository api repoInput options = Inr res"
  then obtain r where r: "parseRepository repoInput = Inr r"
    by (cases "parseRepository repoInput") (simp_all add: collectFromRepository_def)
  define cs where "cs = contributorEmails res"
  define ks where "ks = commitEmails res"
  have all: "allEmails res = map snd (set_new (set_all [] cs) ks)"
    using run r by (auto simp: collectFromRepository_def Let_def cs_def ks_def)
  have ncs: "\<forall>e\<in>set cs. trim (toLowerCase (email e)) = email e"
  proof -
    have "\<forall>e\<in>set (emails (collectFromContributors api (repositoryName_of r))).
            trim (toLowerCase (email e)) = email e"
      unfolding collectFromContributors_def
      by (rule loop_emails_normal) (simp add: contributors_start_def)
    moreover have "cs = emails (collectFromContributors api (repositoryName_of r)) \<or> cs = []"
      using run r by (auto simp: collectFromRepository_def Let_def cs_def)
    ultimately show ?thesis by auto
  qed
  have nks: "\<forall>e\<in>set ks. trim (toLowerCase (email e)) = email e"
  proof -
    have "\<forall>e\<in>set (c_emails (collectFromCommits api (repositoryName_of r) (maxCommits_of options))).
            trim (toLowerCase (email e)) = email e"
      unfolding collectFromCommits_def
      by (rule commits_loop_emails_normal) (simp add: commits_start_def)
    moreover have "ks = c_emails (collectFromCommits api (repositoryName_of r) (maxCommits_of options))
        \<or> ks = []"
      using run r by (auto simp: collectFromRepository_def Let_def ks_def)
    ultimately show ?thesis by auto
  qed
  have d: "distinct (map email (allEmails res))"
    unfolding all by (rule merge_distinct)
  have n: "\<forall>e\<in>set (allEmails res). trim (toLowerCase (email e)) = email e"
    using merge_values [of cs ks] ncs nks unfolding all by blast
  have "map (\<lambda>e. trim (toLowerCase (email e))) (allEmails res) = map email (allEmails res)"
    by (rule map_cong) (use n in auto)
  with d have dn: "distinct (map (\<lambda>e. trim (toLowerCase (email e))) (allEmails res))"
    by (simp only:)
  have a: "email ` set (allEmails res) = email ` set cs \<union> email ` set ks"
    unfolding all by (rule merge_addresses)
  have c: "\<forall>c\<in>set cs. find (\<lambda>e. email e = email c) (allEmails res) =
          Some (last (filter (\<lambda>e. email e = email c) cs))"
    unfolding all by (simp add: merge_find)
  have k: "\<forall>k\<in>set ks. email k \<notin> email ` set cs \<longrightarrow>
          find (\<lambda>e. email e = email k) (allEmails res) = find (\<lambda>e. email e = email k) ks"
    unfolding all by (simp add: merge_find)
  from d n dn a c k show "distinct (map email (allEmails res)) \<and>
     (\<forall>e\<in>set (allEmails res). trim (toLowerCase (email e)) = email e) \<and>
     distinct (map (\<lambda>e. trim (toLowerCase (email e))) (allEmails res)) \<and>
     email ` set (allEmails res) =
       email ` set (contributorEmails res) \<union> email ` set (commitEmails res) \<and>
     (\<forall>c\<in>set (contributorEmails res).
        find (\<lambda>e. email e = email c) (allEmails res) =
          Some (last (filter (\<lambda>e. email e = email c) (contributorEmails res)))) \<and>
     (\<forall>k\<in>set (commitEmails res).
        email k \<notin> email ` set (contributorEmails res) \<longrightarrow>
          find (\<lambda>e. email e = email k) (allEmails res) =
            find (\<lambda>e. email e = email k) (commitEmails res))"
    unfolding cs_def ks_def by blast
qed

lemma shared_address_run:
  "collectFromRepository shared_address_api ''octo/repo'' default_options =
     Inr \<lparr>repositoryName = ''octo/repo'',
          contributorEmails =
            [\<lparr>email = ''jane@dev.org'', name = ''Jane D'', username = ''jane'',
              repository = Some ''octo/repo''\<rparr>,
             \<lparr>email = ''bob@dev.org'', name = ''Anonymous Contributor'', username = [],
              repository = Some ''octo/repo''\<rparr>],
          commitEmails =
            [\<lparr>email = ''jane@dev.org'', name = ''Jane'', username = ''jane'',
              repository = Some ''octo/repo''\<rparr>,
             \<lparr>email = ''carl@dev.org'', name = ''Carl'', username = [],
              repository = Some ''octo/repo''\<rparr>],
          allEmails =
            [\<lparr>email = ''jane@dev.org'', name = ''Jane D'', username = ''jane'',
              repository = Some ''octo/repo''\<rparr>,
             \<lparr>email = ''bob@dev.org'', name = ''Anonymous Contributor'', username = [],
              repository = Some ''octo/repo''\<rparr>,
             \<lparr>email = ''carl@dev.org'', name = ''Carl'', username = [],
              repository = Some ''octo/repo''\<rparr>],
          validEmails =
            [\<lparr>email = ''jane@dev.org'', name = ''Jane D'', username = ''jane'',
              repository = Some ''octo/repo''\<rparr>,
             \<lparr>email = ''bob@dev.org'', name = ''Anonymous Contributor'', username = [],
              repository = Some ''octo/repo''\<rparr>,
             \<lparr>email = ''carl@dev.org'', name = ''Carl'', username = [],
              repository = Some ''octo/repo''\<rparr>],
          errorEvents = [],
          contributorPages = [1, 2, 3, 4],
          commitPages = [1]\<rparr>"
  by code_simp

theorem merged_addresses_first_seen_wins_witness:
  "(\<exists>res. collectFromRepository shared_address_api ''octo/repo'' default_options = Inr res \<and>
      map email (contributorEmails res) = [''jane@dev.org'', ''bob@dev.org''] \<and>
      map email (commitEmails res) = [''jane@dev.org'', ''carl@dev.org''] \<and>
      map email (allEmails res) = [''jane@dev.org'', ''bob@dev.org'', ''carl@dev.org''] \<and>
      distinct (map email (allEmails res)) \<and>
      find (\<lambda>e. email e = ''jane@dev.org'') (allEmails res) =
        Some \<lparr>email = ''jane@dev.org'', name = ''Jane D'', username = ''jane'',
              repository = Some ''octo/repo''\<rparr>)"
  using merged_addresses_first_seen_wins [of shared_address_api "''octo/repo''" default_options]
  by (simp add: shared_address_run)

end
